theory Spec2Isabelle
  imports Main "HOL-Library.Word"
begin

unbundle bit_operations_syntax

section \<open>Data model\<close>

text \<open>
  A \<^verbatim>\<open>Uint8Array\<close> is a list of 8-bit words. JavaScript numbers that hold small integers
  (sums, differences and carries of bytes) and the BigInt curve order are \<open>int\<close>. A path
  index is a number read from text, a \<open>jsnum\<close>: \<^verbatim>\<open>NaN\<close> (what \<^verbatim>\<open>parseInt\<close> and
  \<^verbatim>\<open>Number\<close> give for text that is no number), a double that holds an integer, or
  \<^verbatim>\<open>Infinity\<close> (what they give for digits beyond the range of a double).
\<close>

type_synonym byte = "8 word"
type_synonym Uint8Array = "byte list"

datatype jsnum = NaN | Num int | Infinity

text \<open>
  Thrown values: \<open>Error msg\<close> is \<^verbatim>\<open>new Error(msg)\<close> of the repository's own code,
  \<open>RangeError\<close> is what \<^verbatim>\<open>TypedArray.prototype.set\<close> throws when the source does not
  fit, \<open>TypeError\<close> is a property read on \<^verbatim>\<open>null\<close>, \<open>AssertionError\<close> is what
  \<^verbatim>\<open>sodium_memzero\<close> throws for an argument that is no typed array, and \<open>ProviderError\<close>
  is whatever the curve library throws from \<^verbatim>\<open>getPublicKey\<close>.
\<close>

datatype error = Error string | RangeError | TypeError | AssertionError | ProviderError

text \<open>
  An argument of \<^verbatim>\<open>fromSeed\<close> before its \<^verbatim>\<open>instanceof Uint8Array\<close> test: a byte array or
  any other value.
\<close>

datatype jsval = U8 Uint8Array | NotUint8Array

fun is_Uint8Array :: "jsval \<Rightarrow> bool" where
  "is_Uint8Array (U8 xs) = True"
| "is_Uint8Array NotUint8Array = False"

fun bytes_of :: "jsval \<Rightarrow> Uint8Array" where
  "bytes_of (U8 xs) = xs"
| "bytes_of NotUint8Array = []"

text \<open>
  The external primitives (the libraries \<^verbatim>\<open>@noble/hashes\<close>, \<^verbatim>\<open>@noble/curves\<close>,
  \<^verbatim>\<open>@noble/secp256k1\<close> and \<^verbatim>\<open>tronweb\<close>) are parameters of the model:
  \<open>hmac_sha512 key message\<close>, \<open>getPublicKey key compressed\<close> (which may throw),
  \<open>keccak256\<close>, the curve's \<open>secp256k1_sign digest key\<close> giving \<open>(r, s, recovery)\<close>, and
  \<open>address_fromHex\<close> of the address codec.
\<close>

record primitives =
  hmac_sha512 :: "Uint8Array \<Rightarrow> Uint8Array \<Rightarrow> Uint8Array"
  getPublicKey :: "Uint8Array \<Rightarrow> bool \<Rightarrow> error + Uint8Array"
  keccak256 :: "Uint8Array \<Rightarrow> Uint8Array"
  secp256k1_sign :: "Uint8Array \<Rightarrow> Uint8Array \<Rightarrow> int \<times> int \<times> bool"
  address_fromHex :: "string \<Rightarrow> string"

text \<open>
  \<^verbatim>\<open>new TextEncoder().encode(s)\<close>: an Isabelle \<open>string\<close> stands for the UTF-8 bytes of
  the text, so encoding is the bytes themselves.
\<close>

definition TextEncoder_encode :: "string \<Rightarrow> Uint8Array" where
  "TextEncoder_encode s = map (\<lambda>c. of_nat (of_char c)) s"

definition MASTER_SECRET :: Uint8Array where
  "MASTER_SECRET = TextEncoder_encode ''Bitcoin seed''"

definition HARDENED_OFFSET :: int where
  "HARDENED_OFFSET = 0x80000000"

text \<open>
  \<^verbatim>\<open>secp256k1.CURVE.n\<close>, the group order of secp256k1, is a constant of the curve
  library.
\<close>

definition CURVE_n :: int where
  "CURVE_n = 0xFFFFFFFFFFFFFFFFFFFFFFFFFFFFFFFEBAAEDCE6AF48A03BBFD25E8CD0364141"

text \<open>
  \<^verbatim>\<open>target.set(source, offset)\<close> copies \<open>source\<close> into \<open>target\<close> at \<open>offset\<close> and throws
  a RangeError when it does not fit.
\<close>

definition u8_set :: "Uint8Array \<Rightarrow> Uint8Array \<Rightarrow> nat \<Rightarrow> error + Uint8Array" where
  "u8_set target source offset =
     (if offset + length source \<le> length target
      then Inr (take offset target @ source @ drop (offset + length source) target)
      else Inl RangeError)"

section \<open>Modular arithmetic kernel (src/signer/utils.js)\<close>

text \<open>
  \<^verbatim>\<open>Number((secp256k1.CURVE.n >> BigInt(8 * (31 - i))) & 0xffn)\<close>, the \<open>i\<close>-th byte of
  the order, most significant first.
\<close>

definition curveOrderByte :: "nat \<Rightarrow> int" where
  "curveOrderByte i = drop_bit (8 * (31 - i)) CURVE_n AND 0xff"

text \<open>
  \<^verbatim>\<open>
  function compareWithCurveOrder (buffer, startIndex = 0) {
    for (let i = 0; i < 32; i++) {
      const curveOrderByte = ...
      if (buffer[startIndex + i] > curveOrderByte) return 1
      if (buffer[startIndex + i] < curveOrderByte) return -1
    }
    return 0
  }
  \<close>
\<close>

function compareWithCurveOrder_loop :: "Uint8Array \<Rightarrow> nat \<Rightarrow> nat \<Rightarrow> int" where
  "compareWithCurveOrder_loop buffer startIndex i =
     (if i < 32 then
        (if uint (buffer ! (startIndex + i)) > curveOrderByte i then 1
         else if uint (buffer ! (startIndex + i)) < curveOrderByte i then - 1
         else compareWithCurveOrder_loop buffer startIndex (i + 1))
      else 0)"
  by pat_completeness auto
termination
  by (relation "measure (\<lambda>(buffer, startIndex, i). 32 - i)") auto

declare compareWithCurveOrder_loop.simps [simp del]

definition compareWithCurveOrder :: "Uint8Array \<Rightarrow> nat \<Rightarrow> int" where
  "compareWithCurveOrder buffer startIndex = compareWithCurveOrder_loop buffer startIndex 0"

text \<open>\<^verbatim>\<open>buffer.every(byte => byte === 0)\<close>\<close>

definition isBufferZero :: "Uint8Array \<Rightarrow> bool" where
  "isBufferZero buffer = list_all (\<lambda>byte. byte = 0) buffer"

text \<open>
  \<^verbatim>\<open>
  function addPrivateKeys (target, addition) {
    let carry = 0
    for (let i = 31; i >= 0; i--) {
      const sum = target[i] + addition[i] + carry
      target[i] = sum & 0xff
      carry = sum >> 8
    }
    return carry > 0
  }
  \<close>
  The loop counter of the model is the number of bytes still to process: at \<open>Suc i\<close> the
  body runs for index \<open>i\<close>. The model returns the updated \<open>target\<close> with the result.
\<close>

fun addPrivateKeys_loop ::
  "Uint8Array \<Rightarrow> Uint8Array \<Rightarrow> int \<Rightarrow> nat \<Rightarrow> Uint8Array \<times> int" where
  "addPrivateKeys_loop target addition carry 0 = (target, carry)"
| "addPrivateKeys_loop target addition carry (Suc i) =
     (let sum = uint (target ! i) + uint (addition ! i) + carry
      in addPrivateKeys_loop (target[i := word_of_int (sum AND 0xff)]) addition
           (drop_bit 8 sum) i)"

definition addPrivateKeys :: "Uint8Array \<Rightarrow> Uint8Array \<Rightarrow> Uint8Array \<times> bool" where
  "addPrivateKeys target addition =
     (case addPrivateKeys_loop target addition 0 32 of
        (target', carry) \<Rightarrow> (target', carry > 0))"

text \<open>
  \<^verbatim>\<open>
  function subtractFromPrivateKey (privateKey, curveOrder) {
    let carry = 0
    for (let i = 31; i >= 0; i--) {
      const curveOrderByte = ...
      const diff = privateKey[i] - curveOrderByte - carry
      privateKey[i] = diff < 0 ? diff + 256 : diff
      carry = diff < 0 ? 1 : 0
    }
  }
  \<close>
\<close>

fun subtractFromPrivateKey_loop :: "Uint8Array \<Rightarrow> int \<Rightarrow> nat \<Rightarrow> Uint8Array" where
  "subtractFromPrivateKey_loop privateKey carry 0 = privateKey"
| "subtractFromPrivateKey_loop privateKey carry (Suc i) =
     (let diff = uint (privateKey ! i) - curveOrderByte i - carry
      in subtractFromPrivateKey_loop
           (privateKey[i := word_of_int (if diff < 0 then diff + 256 else diff)])
           (if diff < 0 then 1 else 0) i)"

definition subtractFromPrivateKey :: "Uint8Array \<Rightarrow> Uint8Array" where
  "subtractFromPrivateKey privateKey = subtractFromPrivateKey_loop privateKey 0 32"

text \<open>
  The child-key update of \<^verbatim>\<open>derivePrivateKeyBuffer\<close> (utils.js, lines 100-105) on the
  key buffer, with \<open>hmacOutputBuffer\<close> holding \<open>IL\<close> in its first 32 bytes:
  \<^verbatim>\<open>
    const hasOverflow = addPrivateKeys(privateKeyBuffer, hmacOutputBuffer)
    if (hasOverflow || compareWithCurveOrder(privateKeyBuffer) >= 0) {
      subtractFromPrivateKey(privateKeyBuffer)
    }
  \<close>
\<close>

definition utils_update :: "Uint8Array \<Rightarrow> Uint8Array \<Rightarrow> Uint8Array" where
  "utils_update privateKeyBuffer hmacOutputBuffer =
     (case addPrivateKeys privateKeyBuffer hmacOutputBuffer of
        (privateKeyBuffer', hasOverflow) \<Rightarrow>
          if hasOverflow \<or> compareWithCurveOrder privateKeyBuffer' 0 \<ge> 0
          then subtractFromPrivateKey privateKeyBuffer'
          else privateKeyBuffer')"

section \<open>The inline arithmetic of \<^verbatim>\<open>CustomTronHDWallet.fromSeed\<close> (src/custom-hdwallet.js)\<close>

text \<open>
  \<^verbatim>\<open>fromSeed\<close> compares with the order twice (lines 179-189 on the HMAC output, lines
  203-215 on the key), each time with the loop
  \<^verbatim>\<open>
    for (let i = 0; i < 32; i++) {
      const curveOrderByte = ...
      if (buf[i] > curveOrderByte) { flag = true; break }
      if (buf[i] < curveOrderByte) { break }
    }
  \<close>
  which leaves the flag \<^verbatim>\<open>false\<close> when all 32 bytes are equal.
\<close>

function fromSeed_greater_loop :: "Uint8Array \<Rightarrow> nat \<Rightarrow> bool" where
  "fromSeed_greater_loop buf i =
     (if i < 32 then
        (if uint (buf ! i) > curveOrderByte i then True
         else if uint (buf ! i) < curveOrderByte i then False
         else fromSeed_greater_loop buf (i + 1))
      else False)"
  by pat_completeness auto
termination
  by (relation "measure (\<lambda>(buf, i). 32 - i)") auto

declare fromSeed_greater_loop.simps [simp del]

text \<open>
  Lines 229-235: \<^verbatim>\<open>isZero\<close> stays true unless one of the 32 bytes is not 0.
\<close>

function fromSeed_isZero_loop :: "Uint8Array \<Rightarrow> nat \<Rightarrow> bool" where
  "fromSeed_isZero_loop buf i =
     (if i < 32 then
        (if buf ! i = 0 then fromSeed_isZero_loop buf (i + 1) else False)
      else True)"
  by pat_completeness auto
termination
  by (relation "measure (\<lambda>(buf, i). 32 - i)") auto

declare fromSeed_isZero_loop.simps [simp del]

text \<open>
  Lines 194-226: the addition loop and the subtraction loop are the loops of
  \<open>addPrivateKeys\<close> and \<open>subtractFromPrivateKey\<close>, written out in place;
  \<^verbatim>\<open>needsModulo\<close> starts as \<^verbatim>\<open>carry > 0\<close> and the comparison loop runs only when it is
  false.
\<close>

definition fromSeed_update :: "Uint8Array \<Rightarrow> Uint8Array \<Rightarrow> Uint8Array" where
  "fromSeed_update privateKeyBuffer hmacOutputBuffer =
     (case addPrivateKeys_loop privateKeyBuffer hmacOutputBuffer 0 32 of
        (privateKeyBuffer', carry) \<Rightarrow>
          let needsModulo =
                (if carry > 0 then True else fromSeed_greater_loop privateKeyBuffer' 0)
          in if needsModulo then subtractFromPrivateKey_loop privateKeyBuffer' 0 32
             else privateKeyBuffer')"

section \<open>Derivation paths\<close>

text \<open>
  JavaScript library functions on the strings that reach them. A path is an Isabelle
  \<open>string\<close>; \<open>apostrophe\<close> is the hardened marker \<^verbatim>\<open>'\<close>.
\<close>

definition apostrophe :: char where
  "apostrophe = CHR 0x27"

definition is_digit :: "char \<Rightarrow> bool" where
  "is_digit c = (48 \<le> (of_char c :: nat) \<and> (of_char c :: nat) \<le> 57)"

text \<open>\<^verbatim>\<open>s.split(sep)\<close> for a one-character separator: never an empty list.\<close>

fun js_split :: "char \<Rightarrow> string \<Rightarrow> string list" where
  "js_split sep [] = [[]]"
| "js_split sep (c # cs) =
     (if c = sep then [] # js_split sep cs
      else (case js_split sep cs of
              [] \<Rightarrow> [[c]]
            | w # ws \<Rightarrow> (c # w) # ws))"

text \<open>\<^verbatim>\<open>s.toLowerCase()\<close> on ASCII text.\<close>

definition toLowerCase :: "string \<Rightarrow> string" where
  "toLowerCase s =
     map (\<lambda>c. if 65 \<le> (of_char c :: nat) \<and> (of_char c :: nat) \<le> 90
              then char_of ((of_char c :: nat) + 32) else c) s"

definition endsWith :: "string \<Rightarrow> char \<Rightarrow> bool" where
  "endsWith s c = (case rev s of [] \<Rightarrow> False | x # xs \<Rightarrow> x = c)"

definition decimal_value :: "string \<Rightarrow> int" where
  "decimal_value ds = foldl (\<lambda>acc c. 10 * acc + (int (of_char c) - 48)) 0 ds"

text \<open>
  A number is a double. \<open>to_double v\<close> is the double that a non-negative integer \<open>v\<close>
  becomes: \<open>v\<close> itself below \<open>2^53\<close>; above, the nearest number with 53 significant
  bits, the even one of two equally near; \<^verbatim>\<open>Infinity\<close> when that reaches \<open>2^1024\<close>.
  \<open>bit_length v\<close> is the number of binary digits of \<open>v\<close>.
\<close>

function bit_length :: "int \<Rightarrow> nat" where
  "bit_length v = (if v \<le> 0 then 0 else Suc (bit_length (v div 2)))"
  by pat_completeness auto
termination
  by (relation "measure nat") auto

declare bit_length.simps [simp del]

definition to_double :: "int \<Rightarrow> jsnum" where
  "to_double v =
     (if v < 2 ^ 53 then Num v
      else
        (let e = bit_length v - 53;
             q = v div 2 ^ e;
             r = v mod 2 ^ e;
             q' = (if 2 * r > 2 ^ e \<or> (2 * r = 2 ^ e \<and> odd q) then q + 1 else q)
         in if q' * 2 ^ e \<ge> 2 ^ 1024 then Infinity else Num (q' * 2 ^ e)))"

text \<open>
  \<^verbatim>\<open>parseInt(component)\<close> reads the leading decimal digits as a number and gives
  \<^verbatim>\<open>NaN\<close> when there is none. This is \<^verbatim>\<open>parseInt\<close> on text made of digits and
  apostrophes, the only text that reaches it behind the pattern test of \<^verbatim>\<open>#parsePath\<close>
  (no sign, blank or \<^verbatim>\<open>0x\<close> prefix).
\<close>

definition parseInt :: "string \<Rightarrow> jsnum" where
  "parseInt s =
     (if takeWhile is_digit s = [] then NaN
      else to_double (decimal_value (takeWhile is_digit s)))"

text \<open>
  \<^verbatim>\<open>Number(component)\<close>: 0 for the empty string, the value of a string of decimal
  digits, \<^verbatim>\<open>NaN\<close> for a string with a character that no numeric literal has (a letter
  \<^verbatim>\<open>m\<close>, an apostrophe). This is \<^verbatim>\<open>Number\<close> on the components of paths over the
  characters \<^verbatim>\<open>m M / ' 0-9\<close>; other characters (blanks, signs, \<^verbatim>\<open>e\<close>, \<^verbatim>\<open>x\<close>, a decimal
  point) are outside the model.
\<close>

definition js_Number :: "string \<Rightarrow> jsnum" where
  "js_Number s =
     (if s = [] then Num 0
      else if list_all is_digit s then to_double (decimal_value s)
      else NaN)"

text \<open>
  \<^verbatim>\<open>index >= k\<close> and \<^verbatim>\<open>index += k\<close> for a non-negative integer \<open>k\<close>, on a number that
  may be \<^verbatim>\<open>NaN\<close> or \<^verbatim>\<open>Infinity\<close>; the sum is again a double.
\<close>

fun js_ge :: "jsnum \<Rightarrow> int \<Rightarrow> bool" where
  "js_ge NaN k = False"
| "js_ge (Num v) k = (v \<ge> k)"
| "js_ge Infinity k = True"

fun js_plus :: "jsnum \<Rightarrow> int \<Rightarrow> jsnum" where
  "js_plus NaN k = NaN"
| "js_plus (Num v) k = to_double (v + k)"
| "js_plus Infinity k = Infinity"

text \<open>
  The bitwise operators first convert with ToInt32: \<^verbatim>\<open>NaN\<close> and \<^verbatim>\<open>Infinity\<close> become 0,
  an integer is reduced to its signed 32-bit value; \<^verbatim>\<open>>>\<close> is the sign-propagating
  shift.
\<close>

fun ToInt32 :: "jsnum \<Rightarrow> int" where
  "ToInt32 NaN = 0"
| "ToInt32 (Num v) = signed_take_bit 31 v"
| "ToInt32 Infinity = 0"

text \<open>
  \<^verbatim>\<open>
  function encodeUInt32BE (value) {
    const buffer = new Uint8Array(4)
    buffer[0] = (value >> 24) & 0xff
    buffer[1] = (value >> 16) & 0xff
    buffer[2] = (value >> 8) & 0xff
    buffer[3] = value & 0xff
    return buffer
  }
  \<close>
  (the same body as \<^verbatim>\<open>CustomTronHDWallet.#encodeUInt32BE\<close>).
\<close>

definition encodeUInt32BE :: "jsnum \<Rightarrow> Uint8Array" where
  "encodeUInt32BE v =
     [word_of_int (drop_bit 24 (ToInt32 v) AND 0xff),
      word_of_int (drop_bit 16 (ToInt32 v) AND 0xff),
      word_of_int (drop_bit 8 (ToInt32 v) AND 0xff),
      word_of_int (ToInt32 v AND 0xff)]"

text \<open>
  utils.js:
  \<^verbatim>\<open>
  function parsePath (path) {
    const indices = path.split('/').map(Number)
    return indices
  }
  \<close>
\<close>

definition parsePath :: "string \<Rightarrow> jsnum list" where
  "parsePath path = map js_Number (js_split (CHR ''/'') path)"

text \<open>
  custom-hdwallet.js:
  \<^verbatim>\<open>
  static #parsePath (path) {
    if (!path.match(/^[mM]\/[0-9'/]+$/)) {
      throw new Error('Invalid derivation path')
    }
    return path.toLowerCase().split('/').slice(1).map(component => {
        let index = parseInt(component)
        if (component.endsWith("'")) { index += HARDENED_OFFSET }
        return index
      })
  }
  \<close>
  \<open>path_match\<close> is the regular expression: \<^verbatim>\<open>m\<close> or \<^verbatim>\<open>M\<close>, a slash, then one or more
  characters, each a digit, an apostrophe or a slash, to the end of the string.
\<close>

definition path_match :: "string \<Rightarrow> bool" where
  "path_match path =
     (case path of
        c # s # rest \<Rightarrow>
          (c = CHR ''m'' \<or> c = CHR ''M'') \<and> s = CHR ''/'' \<and> rest \<noteq> [] \<and>
          list_all (\<lambda>x. is_digit x \<or> x = apostrophe \<or> x = CHR ''/'') rest
      | _ \<Rightarrow> False)"

definition CustomTronHDWallet_parsePath :: "string \<Rightarrow> error + jsnum list" where
  "CustomTronHDWallet_parsePath path =
     (if \<not> path_match path then Inl (Error ''Invalid derivation path'')
      else Inr (map (\<lambda>component.
                  if endsWith component apostrophe
                  then js_plus (parseInt component) HARDENED_OFFSET
                  else parseInt component)
                (drop 1 (js_split (CHR ''/'') (toLowerCase path)))))"

section \<open>The derivation buffers\<close>

text \<open>
  The three caller-owned arrays that a derivation mutates in place. They are three
  distinct arrays, as \<^verbatim>\<open>WalletAccountTron\<close>'s constructor allocates them. A stateful
  operation returns the error it threw, if any, with the contents of the arrays when it
  ended.

  \<^verbatim>\<open>const chainCode = hmacOutputBuffer.subarray(32)\<close> makes no copy: \<^verbatim>\<open>subarray\<close>
  returns a view on the same storage, so the chain code \<^emph>\<open>is\<close> bytes 32.. of
  \<open>hmacOutputBuffer\<close>, and every write to \<open>hmacOutputBuffer\<close> writes it.
\<close>

record buffers =
  privateKeyBuffer :: Uint8Array
  hmacOutputBuffer :: Uint8Array
  derivationDataBuffer :: Uint8Array

definition chainCode :: "buffers \<Rightarrow> Uint8Array" where
  "chainCode b = drop 32 (hmacOutputBuffer b)"

definition seq ::
  "error option \<times> buffers \<Rightarrow> (buffers \<Rightarrow> error option \<times> buffers) \<Rightarrow> error option \<times> buffers" where
  "seq r f = (case r of (Some e, b) \<Rightarrow> (Some e, b) | (None, b) \<Rightarrow> f b)"

definition set_privateKey :: "buffers \<Rightarrow> Uint8Array \<Rightarrow> nat \<Rightarrow> error option \<times> buffers" where
  "set_privateKey b source offset =
     (case u8_set (privateKeyBuffer b) source offset of
        Inl e \<Rightarrow> (Some e, b)
      | Inr a \<Rightarrow> (None, b\<lparr>privateKeyBuffer := a\<rparr>))"

definition set_hmacOutput :: "buffers \<Rightarrow> Uint8Array \<Rightarrow> nat \<Rightarrow> error option \<times> buffers" where
  "set_hmacOutput b source offset =
     (case u8_set (hmacOutputBuffer b) source offset of
        Inl e \<Rightarrow> (Some e, b)
      | Inr a \<Rightarrow> (None, b\<lparr>hmacOutputBuffer := a\<rparr>))"

definition set_derivationData :: "buffers \<Rightarrow> Uint8Array \<Rightarrow> nat \<Rightarrow> error option \<times> buffers" where
  "set_derivationData b source offset =
     (case u8_set (derivationDataBuffer b) source offset of
        Inl e \<Rightarrow> (Some e, b)
      | Inr a \<Rightarrow> (None, b\<lparr>derivationDataBuffer := a\<rparr>))"

text \<open>
  \<^verbatim>\<open>chainCode.set(source)\<close>: a write through the view, into \<open>hmacOutputBuffer\<close> from
  byte 32.
\<close>

definition set_chainCode :: "buffers \<Rightarrow> Uint8Array \<Rightarrow> error option \<times> buffers" where
  "set_chainCode b source =
     (if length source \<le> length (chainCode b)
      then (None, b\<lparr>hmacOutputBuffer :=
                      take 32 (hmacOutputBuffer b) @ source @ drop (length source) (chainCode b)\<rparr>)
      else (Some RangeError, b))"

fun derive_loop ::
  "(buffers \<Rightarrow> jsnum \<Rightarrow> error option \<times> buffers) \<Rightarrow> buffers \<Rightarrow> jsnum list
     \<Rightarrow> error option \<times> buffers" where
  "derive_loop step b [] = (None, b)"
| "derive_loop step b (index # indices) =
     (case step b index of
        (Some e, b') \<Rightarrow> (Some e, b')
      | (None, b') \<Rightarrow> derive_loop step b' indices)"

section \<open>\<^verbatim>\<open>derivePrivateKeyBuffer\<close> (src/signer/utils.js)\<close>

text \<open>
  The body of the loop over the indices (lines 84-111):
  \<^verbatim>\<open>
    if (index >= HARDENED_OFFSET) {
      derivationDataBuffer[0] = 0x00
      derivationDataBuffer.set(privateKeyBuffer, 1)
    } else {
      derivationDataBuffer.set(secp256k1.getPublicKey(privateKeyBuffer, true))
    }
    derivationDataBuffer.set(encodeUInt32BE(index), 33)
    hmacOutputBuffer.set(hmac(sha512, chainCode, derivationDataBuffer))
    if (compareWithCurveOrder(hmacOutputBuffer) >= 0) continue
    const hasOverflow = addPrivateKeys(privateKeyBuffer, hmacOutputBuffer)
    if (hasOverflow || compareWithCurveOrder(privateKeyBuffer) >= 0) {
      subtractFromPrivateKey(privateKeyBuffer)
    }
    if (isBufferZero(privateKeyBuffer)) continue
    chainCode.set(hmacOutputBuffer.subarray(32))
  \<close>
\<close>

definition derivePrivateKeyBuffer_step ::
  "primitives \<Rightarrow> buffers \<Rightarrow> jsnum \<Rightarrow> error option \<times> buffers" where
  "derivePrivateKeyBuffer_step P b0 index =
     seq (if js_ge index HARDENED_OFFSET
          then set_derivationData
                 (b0\<lparr>derivationDataBuffer := (derivationDataBuffer b0)[0 := 0]\<rparr>)
                 (privateKeyBuffer b0) 1
          else (case getPublicKey P (privateKeyBuffer b0) True of
                  Inl e \<Rightarrow> (Some e, b0)
                | Inr pubKey \<Rightarrow> set_derivationData b0 pubKey 0))
     (\<lambda>b1. seq (set_derivationData b1 (encodeUInt32BE index) 33)
     (\<lambda>b2. seq (set_hmacOutput b2
                   (hmac_sha512 P (chainCode b2) (derivationDataBuffer b2)) 0)
     (\<lambda>b3. if compareWithCurveOrder (hmacOutputBuffer b3) 0 \<ge> 0 then (None, b3)
            else let b4 = b3\<lparr>privateKeyBuffer :=
                               utils_update (privateKeyBuffer b3) (hmacOutputBuffer b3)\<rparr>
                 in if isBufferZero (privateKeyBuffer b4) then (None, b4)
                    else set_chainCode b4 (drop 32 (hmacOutputBuffer b4)))))"

text \<open>
  \<^verbatim>\<open>
  export function derivePrivateKeyBuffer (seed, privateKeyBuffer, hmacOutputBuffer,
                                          derivationDataBuffer, path) {
    hmacOutputBuffer.set(hmac(sha512, MASTER_SECRET, seed))
    privateKeyBuffer.set(hmacOutputBuffer.subarray(0, 32))
    const chainCode = hmacOutputBuffer.subarray(32)
    const indices = parsePath(path)
    for (const index of indices) { ... }
  }
  \<close>
  The seed is a byte array here.
\<close>

definition derivePrivateKeyBuffer ::
  "primitives \<Rightarrow> Uint8Array \<Rightarrow> buffers \<Rightarrow> string \<Rightarrow> error option \<times> buffers" where
  "derivePrivateKeyBuffer P seed b0 path =
     seq (set_hmacOutput b0 (hmac_sha512 P MASTER_SECRET seed) 0)
     (\<lambda>b1. seq (set_privateKey b1 (take 32 (hmacOutputBuffer b1)) 0)
     (\<lambda>b2. derive_loop (derivePrivateKeyBuffer_step P) b2 (parsePath path)))"

section \<open>\<^verbatim>\<open>CustomTronSigningKey\<close> and \<^verbatim>\<open>CustomTronHDWallet\<close>\<close>

definition hex_digit :: "nat \<Rightarrow> char" where
  "hex_digit d = ''0123456789abcdef'' ! d"

text \<open>\<^verbatim>\<open>Buffer.from(bytes).toString('hex')\<close>\<close>

definition bytes_to_hex :: "Uint8Array \<Rightarrow> string" where
  "bytes_to_hex bs = concat (map (\<lambda>b. [hex_digit (unat b div 16), hex_digit (unat b mod 16)]) bs)"

text \<open>\<^verbatim>\<open>n.toString(16)\<close> for a BigInt \<open>n \<ge> 0\<close>, and \<^verbatim>\<open>s.padStart(k, '0')\<close>.\<close>

function toString16 :: "int \<Rightarrow> string" where
  "toString16 n =
     (if n < 16 then [hex_digit (nat n)]
      else toString16 (n div 16) @ [hex_digit (nat (n mod 16))])"
  by pat_completeness auto
termination
  by (relation "measure (\<lambda>n. nat n)") auto

declare toString16.simps [simp del]

definition padStart0 :: "string \<Rightarrow> nat \<Rightarrow> string" where
  "padStart0 s k = replicate (k - length s) (CHR ''0'') @ s"

text \<open>
  The constructor of \<^verbatim>\<open>CustomTronSigningKey\<close> keeps the reference to the key buffer
  after two checks (the first, \<^verbatim>\<open>instanceof Uint8Array\<close>, holds for a byte array):
  \<^verbatim>\<open>
    if (privateKeyBuffer.length !== 32) {
      throw new Error('privateKeyBuffer must be 32 bytes')
    }
  \<close>
\<close>

definition new_CustomTronSigningKey :: "Uint8Array \<Rightarrow> error + Uint8Array" where
  "new_CustomTronSigningKey privateKeyBuffer' =
     (if length privateKeyBuffer' \<noteq> 32 then Inl (Error ''privateKeyBuffer must be 32 bytes'')
      else Inr privateKeyBuffer')"

text \<open>
  \<^verbatim>\<open>
  sign (message) {
    const signature = secp256k1.sign(message, this.#privateKeyBuffer)
    return '0x' + signature.r.toString(16).padStart(64, '0')
                + signature.s.toString(16).padStart(64, '0')
                + (signature.recovery ? '1c' : '1b')
  }
  \<close>
\<close>

definition CustomTronSigningKey_sign :: "primitives \<Rightarrow> Uint8Array \<Rightarrow> Uint8Array \<Rightarrow> string" where
  "CustomTronSigningKey_sign P privateKeyBuffer' message =
     (case secp256k1_sign P message privateKeyBuffer' of
        (r, s, recovery) \<Rightarrow>
          ''0x'' @ padStart0 (toString16 r) 64 @ padStart0 (toString16 s) 64
               @ (if recovery then ''1c'' else ''1b''))"

text \<open>
  \<^verbatim>\<open>
  computeAddress () {
    const pubKey = this.getPublicKey(false)
    const pubKeyNoPrefix = pubKey.slice(1)
    const hash = keccak256(pubKeyNoPrefix)
    const ethAddress = hash.slice(12)
    const ethAddressHex = '41' + Buffer.from(ethAddress).toString('hex')
    return this.#tronWeb.address.fromHex(ethAddressHex)
  }
  \<close>
\<close>

definition computeAddress :: "primitives \<Rightarrow> Uint8Array \<Rightarrow> error + string" where
  "computeAddress P privateKeyBuffer' =
     (case getPublicKey P privateKeyBuffer' False of
        Inl e \<Rightarrow> Inl e
      | Inr pubKey \<Rightarrow>
          Inr (address_fromHex P
                 (''41'' @ bytes_to_hex (drop 12 (keccak256 P (drop 1 pubKey))))))"

text \<open>
  A \<^verbatim>\<open>CustomTronHDWallet\<close>: its signing key (the key buffer it refers to) and the
  address its constructor computes with \<^verbatim>\<open>this.#signingKey.computeAddress()\<close>.
\<close>

record wallet =
  wallet_signingKey :: Uint8Array
  wallet_address :: string

definition new_CustomTronHDWallet :: "primitives \<Rightarrow> Uint8Array \<Rightarrow> error + wallet" where
  "new_CustomTronHDWallet P signingKey =
     (case computeAddress P signingKey of
        Inl e \<Rightarrow> Inl e
      | Inr a \<Rightarrow> Inr \<lparr>wallet_signingKey = signingKey, wallet_address = a\<rparr>)"

section \<open>\<^verbatim>\<open>CustomTronHDWallet.fromSeed\<close> (src/custom-hdwallet.js)\<close>

text \<open>
  The body of the loop over the indices (lines 162-241). On a hardened index the data
  buffer takes a zero byte, the key and the index; otherwise the compressed public key
  and the index. Then the HMAC keyed with the chain code overwrites
  \<open>hmacOutputBuffer\<close>, the first comparison loop decides \<^verbatim>\<open>skip\<close>, the key is updated
  in place, the zero loop decides the second \<^verbatim>\<open>continue\<close>, and last
  \<^verbatim>\<open>chainCode.set(hmacOutputBuffer.subarray(32))\<close>.
\<close>

definition fromSeed_step ::
  "primitives \<Rightarrow> buffers \<Rightarrow> jsnum \<Rightarrow> error option \<times> buffers" where
  "fromSeed_step P b0 index =
     seq (if js_ge index HARDENED_OFFSET
          then seq (set_derivationData
                      (b0\<lparr>derivationDataBuffer := (derivationDataBuffer b0)[0 := 0]\<rparr>)
                      (privateKeyBuffer b0) 1)
                   (\<lambda>b1. set_derivationData b1 (encodeUInt32BE index) 33)
          else (case getPublicKey P (privateKeyBuffer b0) True of
                  Inl e \<Rightarrow> (Some e, b0)
                | Inr pubKey \<Rightarrow>
                    seq (set_derivationData b0 pubKey 0)
                        (\<lambda>b1. set_derivationData b1 (encodeUInt32BE index) 33)))
     (\<lambda>b2. seq (set_hmacOutput b2
                   (hmac_sha512 P (chainCode b2) (derivationDataBuffer b2)) 0)
     (\<lambda>b3. if fromSeed_greater_loop (hmacOutputBuffer b3) 0 then (None, b3)
            else let b4 = b3\<lparr>privateKeyBuffer :=
                               fromSeed_update (privateKeyBuffer b3) (hmacOutputBuffer b3)\<rparr>
                 in if fromSeed_isZero_loop (privateKeyBuffer b4) 0 then (None, b4)
                    else set_chainCode b4 (drop 32 (hmacOutputBuffer b4))))"

text \<open>
  After the argument checks (lines 150-245): master key, path, child keys, wallet.
  \<^verbatim>\<open>
    hmacOutputBuffer.set(hmac(sha512, MASTER_SECRET, seed))
    privateKeyBuffer.set(hmacOutputBuffer.subarray(0, 32))
    const chainCode = hmacOutputBuffer.subarray(32)
    const indices = this.#parsePath(path)
    for (const index of indices) { ... }
    return new CustomTronHDWallet(new CustomTronSigningKey(privateKeyBuffer), tronWeb)
  \<close>
\<close>

definition fromSeed_derive ::
  "primitives \<Rightarrow> Uint8Array \<Rightarrow> buffers \<Rightarrow> string \<Rightarrow> error option \<times> buffers" where
  "fromSeed_derive P seed b0 path =
     seq (set_hmacOutput b0 (hmac_sha512 P MASTER_SECRET seed) 0)
     (\<lambda>b1. seq (set_privateKey b1 (take 32 (hmacOutputBuffer b1)) 0)
     (\<lambda>b2. case CustomTronHDWallet_parsePath path of
              Inl e \<Rightarrow> (Some e, b2)
            | Inr indices \<Rightarrow> derive_loop (fromSeed_step P) b2 indices))"

text \<open>
  \<^verbatim>\<open>fromSeed\<close> with its five argument checks (lines 134-148). The result is what the call
  gives (the wallet, or the error thrown) and the contents of the three arrays when it
  ends; \<open>None\<close> when it ends before touching them. \<^verbatim>\<open>tronWeb\<close> is only passed on and is
  left out; \<^verbatim>\<open>backupBuffer\<close> is checked and never used.
\<close>

definition fromSeed ::
  "primitives \<Rightarrow> jsval \<Rightarrow> jsval \<Rightarrow> jsval \<Rightarrow> jsval \<Rightarrow> jsval \<Rightarrow> string
     \<Rightarrow> (error + wallet) \<times> buffers option" where
  "fromSeed P seed privateKeyBuffer' hmacOutputBuffer' derivationDataBuffer' backupBuffer path =
     (if \<not> is_Uint8Array seed
      then (Inl (Error ''seed must be a Uint8Array''), None)
      else if \<not> (is_Uint8Array privateKeyBuffer' \<and> length (bytes_of privateKeyBuffer') = 32)
      then (Inl (Error ''privateKeyBuffer must be 32 bytes''), None)
      else if \<not> (is_Uint8Array hmacOutputBuffer' \<and> length (bytes_of hmacOutputBuffer') = 64)
      then (Inl (Error ''hmacOutputBuffer must be a 64-byte Uint8Array''), None)
      else if \<not> (is_Uint8Array derivationDataBuffer' \<and>
                  length (bytes_of derivationDataBuffer') = 37)
      then (Inl (Error ''derivationDataBuffer must be a 37-byte Uint8Array''), None)
      else if \<not> (is_Uint8Array backupBuffer \<and> length (bytes_of backupBuffer) = 32)
      then (Inl (Error ''backupBuffer must be a 32-byte Uint8Array''), None)
      else
        (case fromSeed_derive P (bytes_of seed)
                \<lparr>privateKeyBuffer = bytes_of privateKeyBuffer',
                 hmacOutputBuffer = bytes_of hmacOutputBuffer',
                 derivationDataBuffer = bytes_of derivationDataBuffer'\<rparr> path of
           (Some e, b) \<Rightarrow> (Inl e, Some b)
         | (None, b) \<Rightarrow>
             (case new_CustomTronSigningKey (privateKeyBuffer b) of
                Inl e \<Rightarrow> (Inl e, Some b)
              | Inr signingKey \<Rightarrow>
                  (case new_CustomTronHDWallet P signingKey of
                     Inl e \<Rightarrow> (Inl e, Some b)
                   | Inr w \<Rightarrow> (Inr w, Some b)))))"

section \<open>Message signing\<close>

text \<open>A message is text or bytes (\<^verbatim>\<open>typeof message === 'string'\<close>).\<close>

datatype message = Text string | Bytes Uint8Array

fun messageBytes :: "message \<Rightarrow> Uint8Array" where
  "messageBytes (Text s) = TextEncoder_encode s"
| "messageBytes (Bytes bs) = bs"

text \<open>The decimal text of a length, as \<^verbatim>\<open>'...' + messageBytes.length\<close> appends it.\<close>

function toString10 :: "nat \<Rightarrow> string" where
  "toString10 n =
     (if n < 10 then [hex_digit n] else toString10 (n div 10) @ [hex_digit (n mod 10)])"
  by pat_completeness auto
termination
  by (relation "measure (\<lambda>n. n)") auto

declare toString10.simps [simp del]

text \<open>
  The first lines of \<^verbatim>\<open>sign\<close>, the same in \<^verbatim>\<open>CustomTronHDWallet.sign\<close> and
  \<^verbatim>\<open>WalletAccountTron.sign\<close>:
  \<^verbatim>\<open>
    const messageBytes = typeof message === 'string'
      ? new TextEncoder().encode(message) : message
    const prefix = new TextEncoder().encode('\x19TRON Signed Message:\n' + messageBytes.length)
    const prefixedMessage = new Uint8Array(prefix.length + messageBytes.length)
    prefixedMessage.set(prefix)
    prefixedMessage.set(messageBytes, prefix.length)
  \<close>
\<close>

definition sign_prefix :: "message \<Rightarrow> Uint8Array" where
  "sign_prefix m =
     TextEncoder_encode
       (CHR 0x19 # ''TRON Signed Message:'' @ [CHR 0x0A] @ toString10 (length (messageBytes m)))"

definition prefixedMessage :: "message \<Rightarrow> error + Uint8Array" where
  "prefixedMessage m =
     (case u8_set (replicate (length (sign_prefix m) + length (messageBytes m)) 0)
             (sign_prefix m) 0 of
        Inl e \<Rightarrow> Inl e
      | Inr a \<Rightarrow> u8_set a (messageBytes m) (length (sign_prefix m)))"

text \<open>
  \<^verbatim>\<open>CustomTronHDWallet.sign\<close>:
  \<^verbatim>\<open>
    const messageHash = keccak256(prefixedMessage)
    const signature = this.#signingKey.sign(messageHash)
    return signature
  \<close>
\<close>

definition CustomTronHDWallet_sign :: "primitives \<Rightarrow> wallet \<Rightarrow> message \<Rightarrow> error + string" where
  "CustomTronHDWallet_sign P w m =
     (case prefixedMessage m of
        Inl e \<Rightarrow> Inl e
      | Inr pm \<Rightarrow> Inr (CustomTronSigningKey_sign P (wallet_signingKey w) (keccak256 P pm)))"

section \<open>\<^verbatim>\<open>WalletAccountTron\<close> (src/wallet-account-tron.js)\<close>

text \<open>
  The account keeps references to its three buffers and to its signing key, which was
  built over the same key buffer (\<^verbatim>\<open>new CustomSigningKey(this.#privateKeyBuffer)\<close>); a
  field is \<open>None\<close> when it is \<^verbatim>\<open>null\<close>. The arrays live in a store from references to
  contents, so that a caller who kept \<^verbatim>\<open>keyPair.privateKey\<close> sees what \<^verbatim>\<open>dispose\<close> does
  to it. \<open>acc_tronWeb\<close> says whether \<^verbatim>\<open>#tronWeb\<close> is set.

  The class \<^verbatim>\<open>CustomSigningKey\<close> (src/signer/custom-signing-key.js) is not among the
  sources: its method \<^verbatim>\<open>sign\<close> is the parameter \<open>signingKey_sign key digest\<close>, and
  \<^verbatim>\<open>tronWeb.trx.verifyMessageV2\<close> is the parameter \<open>verifyMessageV2\<close>, which may throw.
\<close>

type_synonym ref = nat
type_synonym store = "ref \<Rightarrow> Uint8Array option"

record account =
  acc_signingKey :: "ref option"
  acc_path :: string
  acc_tronWeb :: bool
  acc_privateKeyBuffer :: "ref option"
  acc_hmacOutputBuffer :: "ref option"
  acc_derivationDataBuffer :: "ref option"

text \<open>
  \<^verbatim>\<open>sodium.sodium_memzero(buffer)\<close> of the library \<^verbatim>\<open>sodium-universal\<close> fills the array
  with zeros. For an argument that is no typed array, \<^verbatim>\<open>null\<close> among them, it throws its
  assertion error (\<^verbatim>\<open>buf must be a typed array\<close>).
\<close>

definition sodium_memzero :: "store \<Rightarrow> ref option \<Rightarrow> error + store" where
  "sodium_memzero h r =
     (case r of
        None \<Rightarrow> Inl AssertionError
      | Some a \<Rightarrow>
          (case h a of
             None \<Rightarrow> Inl AssertionError
           | Some bs \<Rightarrow> Inr (h(a \<mapsto> replicate (length bs) 0))))"

text \<open>
  \<^verbatim>\<open>
  dispose() {
    sodium.sodium_memzero(this.#privateKeyBuffer);
    sodium.sodium_memzero(this.#hmacOutputBuffer);
    sodium.sodium_memzero(this.#derivationDataBuffer);
    this.#privateKeyBuffer = null;
    this.#hmacOutputBuffer = null;
    this.#derivationDataBuffer = null;
    this.#signingKey = null;
    this.#tronWeb = null;
  }
  \<close>
\<close>

definition dispose :: "store \<Rightarrow> account \<Rightarrow> error option \<times> store \<times> account" where
  "dispose h a =
     (case sodium_memzero h (acc_privateKeyBuffer a) of
        Inl e \<Rightarrow> (Some e, h, a)
      | Inr h1 \<Rightarrow>
          (case sodium_memzero h1 (acc_hmacOutputBuffer a) of
             Inl e \<Rightarrow> (Some e, h1, a)
           | Inr h2 \<Rightarrow>
               (case sodium_memzero h2 (acc_derivationDataBuffer a) of
                  Inl e \<Rightarrow> (Some e, h2, a)
                | Inr h3 \<Rightarrow>
                    (None, h3,
                     a\<lparr>acc_privateKeyBuffer := None, acc_hmacOutputBuffer := None,
                       acc_derivationDataBuffer := None, acc_signingKey := None,
                       acc_tronWeb := False\<rparr>))))"

text \<open>
  \<^verbatim>\<open>WalletAccountTron.sign\<close>: the prefixed message is built and hashed first, then
  \<^verbatim>\<open>this.#signingKey.sign(messageHash)\<close> reads the signing key.
\<close>

definition WalletAccountTron_sign ::
  "primitives \<Rightarrow> (Uint8Array \<Rightarrow> Uint8Array \<Rightarrow> string) \<Rightarrow> store \<Rightarrow> account \<Rightarrow> message
     \<Rightarrow> error + string" where
  "WalletAccountTron_sign P signingKey_sign h a m =
     (case prefixedMessage m of
        Inl e \<Rightarrow> Inl e
      | Inr pm \<Rightarrow>
          (case acc_signingKey a of
             None \<Rightarrow> Inl TypeError
           | Some r \<Rightarrow>
               (case h r of
                  None \<Rightarrow> Inl TypeError
                | Some key \<Rightarrow> Inr (signingKey_sign key (keccak256 P pm)))))"

text \<open>
  \<^verbatim>\<open>
  async verify(message, signature) {
    try {
      await this.#tronWeb.trx.verifyMessageV2(message, signature);
      return true;
    } catch (_) {
      return false;
    }
  }
  \<close>
  and the getter \<^verbatim>\<open>get path() { return this.#path; }\<close>.
\<close>

definition WalletAccountTron_verify ::
  "(message \<Rightarrow> string \<Rightarrow> error + string) \<Rightarrow> account \<Rightarrow> message \<Rightarrow> string \<Rightarrow> error + bool" where
  "WalletAccountTron_verify verifyMessageV2 a m signature =
     (if \<not> acc_tronWeb a then Inr False
      else (case verifyMessageV2 m signature of
              Inl e \<Rightarrow> Inr False
            | Inr recovered \<Rightarrow> Inr True))"

definition WalletAccountTron_path :: "account \<Rightarrow> error + string" where
  "WalletAccountTron_path a = Inr (acc_path a)"

section \<open>The older \<^verbatim>\<open>WalletAccountTron\<close> (in src/custom-hdwallet.js)\<close>

text \<open>
  The class of the same name that works through a \<^verbatim>\<open>CustomTronHDWallet\<close>: it has a fourth
  buffer, and \<^verbatim>\<open>#wallet\<close> in place of the signing key. \<open>acc0_wallet\<close> is the reference to the
  key buffer of the wallet's signing key, \<open>None\<close> when \<^verbatim>\<open>#wallet\<close> is \<^verbatim>\<open>null\<close>.
\<close>

record account0 =
  acc0_wallet :: "ref option"
  acc0_path :: string
  acc0_tronWeb :: bool
  acc0_privateKeyBuffer :: "ref option"
  acc0_hmacOutputBuffer :: "ref option"
  acc0_derivationDataBuffer :: "ref option"
  acc0_backupBuffer :: "ref option"

text \<open>
  \<^verbatim>\<open>
  close () {
    sodium.sodium_memzero(this.#privateKeyBuffer)
    sodium.sodium_memzero(this.#hmacOutputBuffer)
    sodium.sodium_memzero(this.#derivationDataBuffer)
    sodium.sodium_memzero(this.#backupBuffer)
    this.#privateKeyBuffer = null
    this.#hmacOutputBuffer = null
    this.#derivationDataBuffer = null
    this.#backupBuffer = null
    this.#wallet = null
    this.#tronWeb = null
  }
  \<close>
\<close>

definition close :: "store \<Rightarrow> account0 \<Rightarrow> error option \<times> store \<times> account0" where
  "close h a =
     (case sodium_memzero h (acc0_privateKeyBuffer a) of
        Inl e \<Rightarrow> (Some e, h, a)
      | Inr h1 \<Rightarrow>
          (case sodium_memzero h1 (acc0_hmacOutputBuffer a) of
             Inl e \<Rightarrow> (Some e, h1, a)
           | Inr h2 \<Rightarrow>
               (case sodium_memzero h2 (acc0_derivationDataBuffer a) of
                  Inl e \<Rightarrow> (Some e, h2, a)
                | Inr h3 \<Rightarrow>
                    (case sodium_memzero h3 (acc0_backupBuffer a) of
                       Inl e \<Rightarrow> (Some e, h3, a)
                     | Inr h4 \<Rightarrow>
                         (None, h4,
                          a\<lparr>acc0_privateKeyBuffer := None, acc0_hmacOutputBuffer := None,
                            acc0_derivationDataBuffer := None, acc0_backupBuffer := None,
                            acc0_wallet := None, acc0_tronWeb := False\<rparr>)))))"

text \<open>
  \<^verbatim>\<open>async sign (message) { return await this.#wallet.sign(message) }\<close>: the read of
  \<^verbatim>\<open>sign\<close> on the wallet comes first, then \<^verbatim>\<open>CustomTronHDWallet.sign\<close> with the wallet's
  signing key; and \<^verbatim>\<open>get path () { return this.#path }\<close>.
\<close>

definition WalletAccountTron0_sign ::
  "primitives \<Rightarrow> store \<Rightarrow> account0 \<Rightarrow> message \<Rightarrow> error + string" where
  "WalletAccountTron0_sign P h a m =
     (case acc0_wallet a of
        None \<Rightarrow> Inl TypeError
      | Some r \<Rightarrow>
          (case h r of
             None \<Rightarrow> Inl TypeError
           | Some key \<Rightarrow>
               (case prefixedMessage m of
                  Inl e \<Rightarrow> Inl e
                | Inr pm \<Rightarrow> Inr (CustomTronSigningKey_sign P key (keccak256 P pm)))))"

definition WalletAccountTron0_path :: "account0 \<Rightarrow> error + string" where
  "WalletAccountTron0_path a = Inr (acc0_path a)"

section \<open>Big-endian values\<close>

text \<open>
  \<open>be_val\<close> reads a buffer as a big-endian unsigned integer; \<open>be_bytes\<close> writes the
  32-byte big-endian form of an integer. They state the properties and build concrete inputs;
  the program does not call them.
\<close>

definition be_val :: "Uint8Array \<Rightarrow> int" where
  "be_val xs = foldl (\<lambda>acc b. 256 * acc + uint b) 0 xs"

definition be_bytes :: "int \<Rightarrow> Uint8Array" where
  "be_bytes v = map (\<lambda>i. word_of_int (drop_bit (8 * (31 - i)) v AND 0xff)) [0..<32]"

section \<open>Stand-ins for the primitives in concrete runs\<close>

text \<open>
  Concrete runs need concrete primitives. \<open>test_getPublicKey\<close> behaves as the curve
  library does on the key's range: it throws unless \<open>1 \<le> key < n\<close>, and gives 33 bytes
  (compressed) or 65 bytes. \<open>hmac_const IL\<close> always answers \<open>IL\<close> followed by 32 bytes of
  7; \<open>hmac_zero_sum\<close> answers by the chain code it is keyed with, so that a master key 1 is
  followed by a child key 2 and then by \<open>IL = n - 2\<close>.
\<close>

definition test_getPublicKey :: "Uint8Array \<Rightarrow> bool \<Rightarrow> error + Uint8Array" where
  "test_getPublicKey key compressed =
     (if length key = 32 \<and> 1 \<le> be_val key \<and> be_val key < CURVE_n
      then Inr (if compressed then 2 # key else 4 # key @ key)
      else Inl ProviderError)"

definition test_primitives :: "(Uint8Array \<Rightarrow> Uint8Array \<Rightarrow> Uint8Array) \<Rightarrow> primitives" where
  "test_primitives h =
     \<lparr>hmac_sha512 = h, getPublicKey = test_getPublicKey,
      keccak256 = (\<lambda>m. replicate 32 0),
      secp256k1_sign = (\<lambda>d k. (1, 1, False)),
      address_fromHex = (\<lambda>s. s)\<rparr>"

definition hmac_const :: "int \<Rightarrow> Uint8Array \<Rightarrow> Uint8Array \<Rightarrow> Uint8Array" where
  "hmac_const IL k m = be_bytes IL @ replicate 32 7"

definition hmac_zero_sum :: "Uint8Array \<Rightarrow> Uint8Array \<Rightarrow> Uint8Array" where
  "hmac_zero_sum k m =
     (if k = MASTER_SECRET then be_bytes 1 @ replicate 32 1
      else if k = replicate 32 1 then be_bytes 1 @ replicate 32 2
      else be_bytes (CURVE_n - 2) @ replicate 32 3)"

text \<open>
  Freshly allocated buffers (\<^verbatim>\<open>new Uint8Array(32)\<close>, \<open>(64)\<close>, \<open>(37)\<close>), and the buffers in
  the middle of a derivation: a key, and a chain code of 32 bytes of 9.
\<close>

definition zero_buffers :: buffers where
  "zero_buffers =
     \<lparr>privateKeyBuffer = replicate 32 0, hmacOutputBuffer = replicate 64 0,
      derivationDataBuffer = replicate 37 0\<rparr>"

definition step_buffers :: "int \<Rightarrow> buffers" where
  "step_buffers key =
     \<lparr>privateKeyBuffer = be_bytes key,
      hmacOutputBuffer = replicate 32 0 @ replicate 32 9,
      derivationDataBuffer = replicate 37 0\<rparr>"

text \<open>
  \<open>zeros k\<close> is \<^verbatim>\<open>new Uint8Array(k)\<close> as an argument; \<open>test_store\<close> and \<open>test_account\<close> are
  an account over three allocated buffers, with stand-ins for the signing key's
  \<^verbatim>\<open>sign\<close> and for \<^verbatim>\<open>verifyMessageV2\<close>.
\<close>

definition zeros :: "nat \<Rightarrow> jsval" where
  "zeros k = U8 (replicate k 0)"

definition test_store :: store where
  "test_store = [0 \<mapsto> be_bytes 5, 1 \<mapsto> replicate 64 1, 2 \<mapsto> replicate 37 2]"

definition test_account :: account where
  "test_account =
     \<lparr>acc_signingKey = Some 0, acc_path = ''m/44'/195'/0'/0/0'', acc_tronWeb = True,
      acc_privateKeyBuffer = Some 0, acc_hmacOutputBuffer = Some 1,
      acc_derivationDataBuffer = Some 2\<rparr>"

definition test_signingKey_sign :: "Uint8Array \<Rightarrow> Uint8Array \<Rightarrow> string" where
  "test_signingKey_sign key digest = bytes_to_hex (key @ digest)"

definition test_verifyMessageV2 :: "message \<Rightarrow> string \<Rightarrow> error + string" where
  "test_verifyMessageV2 m signature = Inr ''T''"

text \<open>
  \<open>echo_primitives\<close> show what reaches them: the hash hands back its input and the
  curve's signature carries the digest and the key as numbers. \<open>test_wallet\<close> is a
  wallet over the key 5.
\<close>

definition echo_primitives :: primitives where
  "echo_primitives =
     \<lparr>hmac_sha512 = hmac_const 1, getPublicKey = test_getPublicKey,
      keccak256 = (\<lambda>m. m),
      secp256k1_sign = (\<lambda>d k. (be_val d, be_val k, False)),
      address_fromHex = (\<lambda>s. s)\<rparr>"

definition test_wallet :: wallet where
  "test_wallet = \<lparr>wallet_signingKey = be_bytes 5, wallet_address = ''T''\<rparr>"

text \<open>The same for the older class, with its fourth buffer.\<close>

definition test_account0 :: account0 where
  "test_account0 =
     \<lparr>acc0_wallet = Some 0, acc0_path = ''m/44'/195'/0'/0/0'', acc0_tronWeb = True,
      acc0_privateKeyBuffer = Some 0, acc0_hmacOutputBuffer = Some 1,
      acc0_derivationDataBuffer = Some 2, acc0_backupBuffer = Some 3\<rparr>"

definition test_store0 :: store where
  "test_store0 = test_store(3 \<mapsto> replicate 32 3)"

section \<open>The path grammar of the specification\<close>

text \<open>
  The specification's words, for comparison with \<open>path_match\<close>: \<^verbatim>\<open>m\<close> or \<^verbatim>\<open>M\<close>, followed by
  one or more \<^verbatim>\<open>/\<close>-separated components, each a non-negative decimal integer optionally
  suffixed with one apostrophe.
\<close>

definition spec_component :: "string \<Rightarrow> bool" where
  "spec_component w =
     (if endsWith w apostrophe then butlast w \<noteq> [] \<and> list_all is_digit (butlast w)
      else w \<noteq> [] \<and> list_all is_digit w)"

definition spec_path_grammar :: "string \<Rightarrow> bool" where
  "spec_path_grammar path =
     (case path of
        [] \<Rightarrow> False
      | c # rest \<Rightarrow>
          (c = CHR ''m'' \<or> c = CHR ''M'') \<and>
          (case js_split (CHR ''/'') rest of
             [] \<Rightarrow> False
           | w # ws \<Rightarrow> w = [] \<and> ws \<noteq> [] \<and> list_all spec_component ws))"

section \<open>Notions for stating the properties of a derivation\<close>

text \<open>
  \<open>well_sized\<close>: buffers of 32, 64 and 37 bytes. \<open>derivation_data\<close>: the 37 bytes a child
  step feeds to the HMAC, or the error of \<open>getPublicKey\<close>.
\<close>

definition well_sized :: "buffers \<Rightarrow> bool" where
  "well_sized b =
     (length (privateKeyBuffer b) = 32 \<and> length (hmacOutputBuffer b) = 64 \<and>
      length (derivationDataBuffer b) = 37)"

definition derivation_data :: "primitives \<Rightarrow> Uint8Array \<Rightarrow> jsnum \<Rightarrow> error + Uint8Array" where
  "derivation_data P key index =
     (if js_ge index HARDENED_OFFSET then Inr (0 # key @ encodeUInt32BE index)
      else (case getPublicKey P key True of
              Inl e \<Rightarrow> Inl e
            | Inr pubKey \<Rightarrow> Inr (pubKey @ encodeUInt32BE index)))"

text \<open>Two states that agree on key and HMAC buffer.\<close>

definition same_key_state :: "buffers \<Rightarrow> buffers \<Rightarrow> bool" where
  "same_key_state b b' =
     (well_sized b \<and> well_sized b' \<and> privateKeyBuffer b = privateKeyBuffer b' \<and>
      hmacOutputBuffer b = hmacOutputBuffer b')"

text \<open>
  \<open>order_prefix k\<close> is the number that the first \<open>k\<close> bytes of the order spell, and \<open>W256\<close>
  is \<open>2^256\<close>, one more than a 32-byte buffer can hold.
\<close>

definition order_prefix :: "nat \<Rightarrow> int" where
  "order_prefix k = CURVE_n div 256 ^ (32 - k)"

definition W256 :: int where
  "W256 = 2 ^ 256"

text \<open>Buffers of the right sizes whose key is below the order.\<close>

definition key_below_order :: "buffers \<Rightarrow> bool" where
  "key_below_order b = (well_sized b \<and> be_val (privateKeyBuffer b) < CURVE_n)"

section \<open>What a child step does to the buffers\<close>

text \<open>
  With buffers of the right sizes, an HMAC of 64 bytes and a compressed public key of 33
  bytes, no \<^verbatim>\<open>set\<close> throws, the data buffer is overwritten whole, and
  \<^verbatim>\<open>chainCode.set(hmacOutputBuffer.subarray(32))\<close> copies the view onto itself. So a step
  either fails in \<open>getPublicKey\<close> with the buffers untouched, or ends with the HMAC output
  in \<open>hmacOutputBuffer\<close> (its right half being the chain code from then on, skipped or
  not) and the key either kept (range test) or updated.
\<close>

lemma length_encodeUInt32BE [simp]: "length (encodeUInt32BE v) = 4"
  by (simp add: encodeUInt32BE_def)

lemma length_addPrivateKeys_loop [simp]:
  "length (fst (addPrivateKeys_loop t a c k)) = length t"
  by (induction k arbitrary: t c) (simp_all add: Let_def)

lemma length_addPrivateKeys_loop_eq:
  "addPrivateKeys_loop t a c k = (t', c') \<Longrightarrow> length t' = length t"
  using length_addPrivateKeys_loop [of t a c k] by simp

lemma length_subtractFromPrivateKey_loop [simp]:
  "length (subtractFromPrivateKey_loop t c k) = length t"
  by (induction k arbitrary: t c) (simp_all add: Let_def)

lemma length_utils_update [simp]: "length (utils_update k h) = length k"
  by (auto simp: utils_update_def addPrivateKeys_def subtractFromPrivateKey_def
        split: prod.splits dest: length_addPrivateKeys_loop_eq)

lemma length_fromSeed_update [simp]: "length (fromSeed_update k h) = length k"
  by (auto simp: fromSeed_update_def Let_def split: prod.splits
        dest: length_addPrivateKeys_loop_eq)

lemma seq_None [simp]: "seq (None, b) f = f b"
  by (simp add: seq_def)

lemma seq_Some [simp]: "seq (Some e, b) f = (Some e, b)"
  by (simp add: seq_def)

lemma set_derivationData_fields:
  "set_derivationData
     \<lparr>privateKeyBuffer = pk, hmacOutputBuffer = hob, derivationDataBuffer = d\<rparr> src off =
   (if off + length src \<le> length d
    then (None, \<lparr>privateKeyBuffer = pk, hmacOutputBuffer = hob,
                 derivationDataBuffer = take off d @ src @ drop (off + length src) d\<rparr>)
    else (Some RangeError,
          \<lparr>privateKeyBuffer = pk, hmacOutputBuffer = hob, derivationDataBuffer = d\<rparr>))"
  by (simp add: set_derivationData_def u8_set_def)

lemma set_hmacOutput_fields:
  "set_hmacOutput
     \<lparr>privateKeyBuffer = pk, hmacOutputBuffer = hob, derivationDataBuffer = d\<rparr> src off =
   (if off + length src \<le> length hob
    then (None, \<lparr>privateKeyBuffer = pk,
                 hmacOutputBuffer = take off hob @ src @ drop (off + length src) hob,
                 derivationDataBuffer = d\<rparr>)
    else (Some RangeError,
          \<lparr>privateKeyBuffer = pk, hmacOutputBuffer = hob, derivationDataBuffer = d\<rparr>))"
  by (simp add: set_hmacOutput_def u8_set_def)

lemma set_privateKey_fields:
  "set_privateKey
     \<lparr>privateKeyBuffer = pk, hmacOutputBuffer = hob, derivationDataBuffer = d\<rparr> src off =
   (if off + length src \<le> length pk
    then (None, \<lparr>privateKeyBuffer = take off pk @ src @ drop (off + length src) pk,
                 hmacOutputBuffer = hob, derivationDataBuffer = d\<rparr>)
    else (Some RangeError,
          \<lparr>privateKeyBuffer = pk, hmacOutputBuffer = hob, derivationDataBuffer = d\<rparr>))"
  by (simp add: set_privateKey_def u8_set_def)

lemma take_one_update: "0 < length d \<Longrightarrow> take (Suc 0) (d[0 := z]) = [z]"
  by (cases d) simp_all

lemma set_chainCode_self:
  "set_chainCode b (drop 32 (hmacOutputBuffer b)) = (None, b)"
  by (simp add: set_chainCode_def chainCode_def)

lemma set_chainCode_fields:
  "set_chainCode
     \<lparr>privateKeyBuffer = pk, hmacOutputBuffer = h, derivationDataBuffer = d\<rparr> (drop 32 h) =
   (None, \<lparr>privateKeyBuffer = pk, hmacOutputBuffer = h, derivationDataBuffer = d\<rparr>)"
  using set_chainCode_self
    [of "\<lparr>privateKeyBuffer = pk, hmacOutputBuffer = h, derivationDataBuffer = d\<rparr>"]
  by simp

lemma derivePrivateKeyBuffer_step_eq:
  assumes "well_sized b"
    and "\<forall>k m. length (hmac_sha512 P k m) = 64"
    and "\<forall>k p. getPublicKey P k True = Inr p \<longrightarrow> length p = 33"
  shows "derivePrivateKeyBuffer_step P b index =
     (case derivation_data P (privateKeyBuffer b) index of
        Inl e \<Rightarrow> (Some e, b)
      | Inr d \<Rightarrow>
          (None,
           \<lparr>privateKeyBuffer =
              (if compareWithCurveOrder (hmac_sha512 P (chainCode b) d) 0 \<ge> 0
               then privateKeyBuffer b
               else utils_update (privateKeyBuffer b) (hmac_sha512 P (chainCode b) d)),
            hmacOutputBuffer = hmac_sha512 P (chainCode b) d,
            derivationDataBuffer = d\<rparr>))"
proof (cases b)
  case (fields pk hob ddb)
  with assms(1) have len: "length pk = 32" "length hob = 64" "length ddb = 37"
    by (simp_all add: well_sized_def)
  show ?thesis
  proof (cases "js_ge index HARDENED_OFFSET")
    case True
    then show ?thesis
      using len assms(2)
      by (simp add: fields derivePrivateKeyBuffer_step_def derivation_data_def
            set_derivationData_fields set_hmacOutput_fields take_one_update
            set_chainCode_fields chainCode_def Let_def)
  next
    case False
    show ?thesis
    proof (cases "getPublicKey P pk True")
      case (Inl e)
      with False show ?thesis
        by (simp add: fields derivePrivateKeyBuffer_step_def derivation_data_def)
    next
      case (Inr pubKey)
      with assms(3) have "length pubKey = 33" by blast
      then show ?thesis
        using False Inr len assms(2)
        by (simp add: fields derivePrivateKeyBuffer_step_def derivation_data_def
            set_derivationData_fields set_hmacOutput_fields
            set_chainCode_fields chainCode_def Let_def)
    qed
  qed
qed

lemma fromSeed_step_eq:
  assumes "well_sized b"
    and "\<forall>k m. length (hmac_sha512 P k m) = 64"
    and "\<forall>k p. getPublicKey P k True = Inr p \<longrightarrow> length p = 33"
  shows "fromSeed_step P b index =
     (case derivation_data P (privateKeyBuffer b) index of
        Inl e \<Rightarrow> (Some e, b)
      | Inr d \<Rightarrow>
          (None,
           \<lparr>privateKeyBuffer =
              (if fromSeed_greater_loop (hmac_sha512 P (chainCode b) d) 0
               then privateKeyBuffer b
               else fromSeed_update (privateKeyBuffer b) (hmac_sha512 P (chainCode b) d)),
            hmacOutputBuffer = hmac_sha512 P (chainCode b) d,
            derivationDataBuffer = d\<rparr>))"
proof (cases b)
  case (fields pk hob ddb)
  with assms(1) have len: "length pk = 32" "length hob = 64" "length ddb = 37"
    by (simp_all add: well_sized_def)
  show ?thesis
  proof (cases "js_ge index HARDENED_OFFSET")
    case True
    then show ?thesis
      using len assms(2)
      by (simp add: fields fromSeed_step_def derivation_data_def
            set_derivationData_fields set_hmacOutput_fields take_one_update
            set_chainCode_fields chainCode_def Let_def)
  next
    case False
    show ?thesis
    proof (cases "getPublicKey P pk True")
      case (Inl e)
      with False show ?thesis
        by (simp add: fields fromSeed_step_def derivation_data_def)
    next
      case (Inr pubKey)
      with assms(3) have "length pubKey = 33" by blast
      then show ?thesis
        using False Inr len assms(2)
        by (simp add: fields fromSeed_step_def derivation_data_def
            set_derivationData_fields set_hmacOutput_fields
            set_chainCode_fields chainCode_def Let_def)
    qed
  qed
qed

lemma derivePrivateKeyBuffer_master:
  assumes "well_sized b" and "length (hmac_sha512 P MASTER_SECRET seed) = 64"
  shows "derivePrivateKeyBuffer P seed b path =
         derive_loop (derivePrivateKeyBuffer_step P)
           \<lparr>privateKeyBuffer = take 32 (hmac_sha512 P MASTER_SECRET seed),
            hmacOutputBuffer = hmac_sha512 P MASTER_SECRET seed,
            derivationDataBuffer = derivationDataBuffer b\<rparr> (parsePath path)"
  using assms
  by (cases b)
     (simp add: derivePrivateKeyBuffer_def well_sized_def set_hmacOutput_fields
        set_privateKey_fields)

lemma fromSeed_derive_master:
  assumes "well_sized b" and "length (hmac_sha512 P MASTER_SECRET seed) = 64"
  shows "fromSeed_derive P seed b path =
         (case CustomTronHDWallet_parsePath path of
            Inl e \<Rightarrow>
              (Some e, \<lparr>privateKeyBuffer = take 32 (hmac_sha512 P MASTER_SECRET seed),
                        hmacOutputBuffer = hmac_sha512 P MASTER_SECRET seed,
                        derivationDataBuffer = derivationDataBuffer b\<rparr>)
          | Inr indices \<Rightarrow>
              derive_loop (fromSeed_step P)
                \<lparr>privateKeyBuffer = take 32 (hmac_sha512 P MASTER_SECRET seed),
                 hmacOutputBuffer = hmac_sha512 P MASTER_SECRET seed,
                 derivationDataBuffer = derivationDataBuffer b\<rparr> indices)"
  using assms
  by (cases b; cases "CustomTronHDWallet_parsePath path")
     (simp_all add: fromSeed_derive_def well_sized_def set_hmacOutput_fields
        set_privateKey_fields)

section \<open>The arithmetic kernel on big-endian values\<close>

text \<open>
  What the byte loops compute, read as 256-bit numbers. These lemmas show where the
  implementation is right; the sections of the claims show where it is not.
\<close>

subsection \<open>Values of buffers\<close>

lemma and_255_mod: "(x::int) AND 0xff = x mod 256"
proof -
  have "(0xff::int) = mask 8" by (simp add: mask_eq_exp_minus_1)
  then have "x AND 0xff = take_bit 8 x" by (simp add: take_bit_eq_mask)
  then show ?thesis by (simp add: take_bit_eq_mod)
qed

lemma drop_bit_8_div: "drop_bit 8 (x::int) = x div 256"
  by (simp add: drop_bit_eq_div)

lemma uint_byte_of_mod: "uint (word_of_int (x mod 256) :: byte) = x mod 256"
  by (simp add: uint_word_of_int)

lemma uint_byte_bounds: "0 \<le> uint (b::byte) \<and> uint b < 256"
  using uint_bounded [of b] by simp

lemma be_val_Nil [simp]: "be_val [] = 0"
  by (simp add: be_val_def)

lemma be_val_snoc [simp]: "be_val (xs @ [b]) = 256 * be_val xs + uint b"
  by (simp add: be_val_def)

lemma be_val_append: "be_val (xs @ ys) = be_val xs * 256 ^ length ys + be_val ys"
proof (induction ys rule: rev_induct)
  case Nil
  then show ?case by simp
next
  case (snoc y ys)
  have "be_val (xs @ ys @ [y]) = 256 * be_val (xs @ ys) + uint y"
    using be_val_snoc [of "xs @ ys" y] by simp
  with snoc show ?case by (simp add: algebra_simps)
qed

lemma be_val_nonneg: "0 \<le> be_val xs"
  by (induction xs rule: rev_induct) simp_all

lemma be_val_bound: "be_val xs < 256 ^ length xs"
proof (induction xs rule: rev_induct)
  case Nil
  then show ?case by simp
next
  case (snoc x xs)
  have "uint x < 256" using uint_byte_bounds by blast
  with snoc show ?case by simp
qed

lemma be_val_take_Suc:
  "i < length xs \<Longrightarrow> be_val (take (Suc i) xs) = 256 * be_val (take i xs) + uint (xs ! i)"
  by (simp add: take_Suc_conv_app_nth)

lemma nth_from_drop:
  assumes "drop k xs = drop k ys" and "k < length xs" and "length xs = length ys"
  shows "xs ! k = ys ! k"
proof -
  have "xs ! k = hd (drop k xs)" using assms(2) by (simp add: hd_drop_conv_nth)
  also have "\<dots> = hd (drop k ys)" using assms(1) by simp
  also have "\<dots> = ys ! k" using assms(2,3) by (simp add: hd_drop_conv_nth)
  finally show ?thesis .
qed

lemma addPrivateKeys_loop_value:
  assumes "k \<le> length t" and "k \<le> length a" and "addPrivateKeys_loop t a c k = (t', c')"
  shows "be_val (take k t') + c' * 256 ^ k = be_val (take k t) + be_val (take k a) + c \<and>
         drop k t' = drop k t"
  using assms
proof (induction k arbitrary: t c)
  case 0
  then show ?case by simp
next
  case (Suc k)
  define sum where "sum = uint (t ! k) + uint (a ! k) + c"
  define t2 where "t2 = t[k := word_of_int (sum AND 0xff)]"
  from Suc.prems have loop: "addPrivateKeys_loop t2 a (drop_bit 8 sum) k = (t', c')"
    by (simp add: Let_def sum_def t2_def)
  have len: "length t2 = length t" by (simp add: t2_def)
  have len': "length t' = length t"
    using length_addPrivateKeys_loop [of t2 a "drop_bit 8 sum" k] loop len by simp
  from Suc.prems have k: "k < length t" "k < length a" by simp_all
  from Suc.IH [OF _ _ loop] k len
  have ih: "be_val (take k t') + c' * 256 ^ k
              = be_val (take k t2) + be_val (take k a) + drop_bit 8 sum"
    and dr: "drop k t' = drop k t2" by simp_all
  have tk: "take k t2 = take k t" by (simp add: t2_def)
  have "t' ! k = t2 ! k" using dr k len len' by (intro nth_from_drop) simp_all
  then have byte: "uint (t' ! k) = sum mod 256"
    using k by (simp add: t2_def and_255_mod uint_byte_of_mod)
  have d2: "drop (Suc k) t' = drop (Suc k) t"
  proof -
    have "drop (Suc k) t' = drop 1 (drop k t')" by simp
    also have "\<dots> = drop 1 (drop k t2)" using dr by simp
    also have "\<dots> = drop (Suc k) t2" by simp
    also have "\<dots> = drop (Suc k) t" by (simp add: t2_def)
    finally show ?thesis .
  qed
  define q where "q = sum div 256"
  define r where "r = sum mod 256"
  define X where "X = c' * 256 ^ k"
  have s: "sum = 256 * q + r" by (simp add: q_def r_def)
  have e0: "be_val (take k t') + X = be_val (take k t) + be_val (take k a) + q"
    using ih tk by (simp add: X_def q_def drop_bit_8_div)
  have e1: "be_val (take (Suc k) t') = 256 * be_val (take k t') + r"
    using k len' byte by (simp add: be_val_take_Suc r_def)
  have e2: "be_val (take (Suc k) t) = 256 * be_val (take k t) + uint (t ! k)"
    using k by (simp add: be_val_take_Suc)
  have e3: "be_val (take (Suc k) a) = 256 * be_val (take k a) + uint (a ! k)"
    using k by (simp add: be_val_take_Suc)
  have e4: "c' * 256 ^ Suc k = 256 * X" by (simp add: X_def)
  have e5: "sum = uint (t ! k) + uint (a ! k) + c" by (simp add: sum_def)
  have "be_val (take (Suc k) t') + c' * 256 ^ Suc k
      = be_val (take (Suc k) t) + be_val (take (Suc k) a) + c"
    unfolding e1 e2 e3 e4 using s e0 e5 by linarith
  with d2 show ?case by simp
qed

subsection \<open>Subtracting the order\<close>

lemma CURVE_n_bounds: "0 < CURVE_n \<and> CURVE_n < 2 ^ 256 \<and> 2 ^ 255 < CURVE_n"
  by (simp add: CURVE_n_def)

lemma order_prefix_0: "order_prefix 0 = 0"
  by (simp add: order_prefix_def CURVE_n_def)

lemma order_prefix_32: "order_prefix 32 = CURVE_n"
  by (simp add: order_prefix_def)

lemma curveOrderByte_eq: "curveOrderByte i = (CURVE_n div 256 ^ (31 - i)) mod 256"
proof -
  have "(2::int) ^ (8 * (31 - i)) = 256 ^ (31 - i)"
    by (simp add: power_mult)
  then show ?thesis
    by (simp add: curveOrderByte_def and_255_mod drop_bit_eq_div)
qed

lemma curveOrderByte_bounds: "0 \<le> curveOrderByte i \<and> curveOrderByte i < 256"
  by (simp add: curveOrderByte_eq)

lemma order_prefix_Suc:
  assumes "k < 32"
  shows "order_prefix (Suc k) = 256 * order_prefix k + curveOrderByte k"
proof -
  define m where "m = CURVE_n div 256 ^ (31 - k)"
  from assms have e: "32 - k = Suc (31 - k)" by simp
  have "order_prefix k = CURVE_n div (256 ^ (31 - k) * 256)"
    by (simp add: order_prefix_def e mult.commute)
  also have "\<dots> = m div 256"
    by (simp add: m_def zdiv_zmult2_eq)
  finally have a: "order_prefix k = m div 256" .
  have b: "curveOrderByte k = m mod 256" by (simp add: curveOrderByte_eq m_def)
  have c: "order_prefix (Suc k) = m" by (simp add: order_prefix_def m_def)
  show ?thesis unfolding a b c by simp
qed

lemma subtractFromPrivateKey_loop_value:
  assumes "k \<le> length t" and "k \<le> 32" and "c = 0 \<or> c = 1"
  shows "\<exists>c'. (c' = 0 \<or> c' = 1) \<and>
           be_val (take k (subtractFromPrivateKey_loop t c k))
             = be_val (take k t) - order_prefix k - c + c' * 256 ^ k \<and>
           drop k (subtractFromPrivateKey_loop t c k) = drop k t"
  using assms
proof (induction k arbitrary: t c)
  case 0
  then show ?case by (auto simp: order_prefix_0)
next
  case (Suc k)
  define diff where "diff = uint (t ! k) - curveOrderByte k - c"
  define c2 :: int where "c2 = (if diff < 0 then 1 else 0)"
  define v where "v = (if diff < 0 then diff + 256 else diff)"
  define t2 where "t2 = t[k := word_of_int v]"
  define t' where "t' = subtractFromPrivateKey_loop t2 c2 k"
  have loop: "subtractFromPrivateKey_loop t c (Suc k) = t'"
    by (simp add: Let_def diff_def t2_def c2_def v_def t'_def)
  from Suc.prems have k: "k < length t" "k < 32" by simp_all
  have len: "length t2 = length t" by (simp add: t2_def)
  have len': "length t' = length t" by (simp add: t'_def len)
  have c2: "c2 = 0 \<or> c2 = 1" by (simp add: c2_def)
  have dr: "- 256 \<le> diff \<and> diff < 256"
  proof -
    have "0 \<le> uint (t ! k)" "uint (t ! k) < 256"
      using uint_byte_bounds [of "t ! k"] by blast+
    moreover have "0 \<le> curveOrderByte k" "curveOrderByte k < 256"
      using curveOrderByte_bounds [of k] by blast+
    moreover have "0 \<le> c" "c \<le> 1" using Suc.prems(3) by auto
    ultimately show ?thesis unfolding diff_def by linarith
  qed
  then have vb: "0 \<le> v \<and> v < 256" and vd: "v = diff + 256 * c2"
    by (auto simp: v_def c2_def)
  from Suc.IH [of t2 c2] k len c2 obtain c' where c': "c' = 0 \<or> c' = 1"
    and ih: "be_val (take k t') = be_val (take k t2) - order_prefix k - c2 + c' * 256 ^ k"
    and drp: "drop k t' = drop k t2"
    by (auto simp: t'_def)
  have tk: "take k t2 = take k t" by (simp add: t2_def)
  have "t' ! k = t2 ! k" using drp k len len' by (intro nth_from_drop) simp_all
  then have byte: "uint (t' ! k) = v"
    using k vb by (simp add: t2_def uint_word_of_int)
  have d2: "drop (Suc k) t' = drop (Suc k) t"
  proof -
    have "drop (Suc k) t' = drop 1 (drop k t')" by simp
    also have "\<dots> = drop 1 (drop k t2)" using drp by simp
    also have "\<dots> = drop (Suc k) t2" by simp
    also have "\<dots> = drop (Suc k) t" by (simp add: t2_def)
    finally show ?thesis .
  qed
  define X where "X = c' * 256 ^ k"
  have e0: "be_val (take k t') = be_val (take k t) - order_prefix k - c2 + X"
    using ih tk by (simp add: X_def)
  have e1: "be_val (take (Suc k) t') = 256 * be_val (take k t') + v"
    using k len' byte by (simp add: be_val_take_Suc)
  have e2: "be_val (take (Suc k) t) = 256 * be_val (take k t) + uint (t ! k)"
    using k by (simp add: be_val_take_Suc)
  have e3: "order_prefix (Suc k) = 256 * order_prefix k + curveOrderByte k"
    using k by (simp add: order_prefix_Suc)
  have e4: "c' * 256 ^ Suc k = 256 * X" by (simp add: X_def)
  have e5: "diff = uint (t ! k) - curveOrderByte k - c" by (simp add: diff_def)
  have "be_val (take (Suc k) t')
      = be_val (take (Suc k) t) - order_prefix (Suc k) - c + c' * 256 ^ Suc k"
    unfolding e1 e2 e3 e4 using e0 e5 vd by linarith
  with c' d2 loop show ?case by auto
qed

lemma subtractFromPrivateKey_value:
  assumes "length t = 32"
  shows "be_val (subtractFromPrivateKey t) = (be_val t - CURVE_n) mod 2 ^ 256"
proof -
  from subtractFromPrivateKey_loop_value [of 32 t 0] assms obtain c' where
    c: "c' = 0 \<or> c' = 1" and
    v: "be_val (take 32 (subtractFromPrivateKey t)) = be_val (take 32 t) - CURVE_n + c' * 256 ^ 32"
    by (auto simp: subtractFromPrivateKey_def order_prefix_32)
  have l: "length (subtractFromPrivateKey t) = 32"
    using assms by (simp add: subtractFromPrivateKey_def)
  have p: "(256::int) ^ 32 = 2 ^ 256" by simp
  have b: "0 \<le> be_val (subtractFromPrivateKey t)" "be_val (subtractFromPrivateKey t) < 2 ^ 256"
    using be_val_nonneg [of "subtractFromPrivateKey t"] be_val_bound [of "subtractFromPrivateKey t"] l p
    by simp_all
  from v l assms have "be_val (subtractFromPrivateKey t) = be_val t - CURVE_n + c' * 2 ^ 256"
    by (simp only: p) simp
  then have "be_val (subtractFromPrivateKey t) mod 2 ^ 256 = (be_val t - CURVE_n) mod 2 ^ 256"
    by simp
  with b show ?thesis by simp
qed

subsection \<open>Comparing with the order, testing for zero\<close>

lemma order_prefix_brackets:
  assumes "j \<le> 32"
  shows "order_prefix j * 256 ^ (32 - j) \<le> CURVE_n \<and>
         CURVE_n < (order_prefix j + 1) * 256 ^ (32 - j)"
proof -
  define d :: int where "d = 256 ^ (32 - j)"
  have d: "0 < d" by (simp add: d_def)
  define q where "q = CURVE_n div d"
  define r where "r = CURVE_n mod d"
  have e: "CURVE_n = q * d + r" by (simp add: q_def r_def)
  have r: "0 \<le> r" "r < d" using d by (simp_all add: r_def)
  have "(q + 1) * d = q * d + d" by (simp add: algebra_simps)
  with e r have "q * d \<le> CURVE_n \<and> CURVE_n < (q + 1) * d" by linarith
  then show ?thesis by (simp add: order_prefix_def d_def q_def)
qed

lemma prefix_brackets:
  assumes "j \<le> 32" and "32 \<le> length b"
  shows "be_val (take j b) * 256 ^ (32 - j) \<le> be_val (take 32 b) \<and>
         be_val (take 32 b) < (be_val (take j b) + 1) * 256 ^ (32 - j)"
proof -
  have "take 32 b = take j b @ drop j (take 32 b)"
    using assms by (metis append_take_drop_id min.absorb2 take_take min.commute)
  then have "be_val (take 32 b)
      = be_val (take j b) * 256 ^ length (drop j (take 32 b)) + be_val (drop j (take 32 b))"
    using be_val_append [of "take j b" "drop j (take 32 b)"] by simp
  moreover have "length (drop j (take 32 b)) = 32 - j" using assms by simp
  moreover have "0 \<le> be_val (drop j (take 32 b))" by (rule be_val_nonneg)
  moreover have "be_val (drop j (take 32 b)) < 256 ^ length (drop j (take 32 b))"
    by (rule be_val_bound)
  ultimately show ?thesis by (simp add: algebra_simps)
qed

lemma prefix_greater:
  assumes "j \<le> 32" and "32 \<le> length b" and "order_prefix j < be_val (take j b)"
  shows "CURVE_n < be_val (take 32 b)"
proof -
  have "(order_prefix j + 1) * 256 ^ (32 - j) \<le> be_val (take j b) * 256 ^ (32 - j)"
    using assms(3) by (intro mult_right_mono) simp_all
  with order_prefix_brackets [OF assms(1)] prefix_brackets [OF assms(1,2)]
  show ?thesis by linarith
qed

lemma prefix_less:
  assumes "j \<le> 32" and "32 \<le> length b" and "be_val (take j b) < order_prefix j"
  shows "be_val (take 32 b) < CURVE_n"
proof -
  have "(be_val (take j b) + 1) * 256 ^ (32 - j) \<le> order_prefix j * 256 ^ (32 - j)"
    using assms(3) by (intro mult_right_mono) simp_all
  with order_prefix_brackets [OF assms(1)] prefix_brackets [OF assms(1,2)]
  show ?thesis by linarith
qed

lemma compareWithCurveOrder_loop_value:
  assumes "i \<le> 32" and "32 \<le> length b" and "be_val (take i b) = order_prefix i"
  shows "compareWithCurveOrder_loop b 0 i =
           (if CURVE_n < be_val (take 32 b) then 1
            else if be_val (take 32 b) < CURVE_n then - 1 else 0)"
  using assms
proof (induction "32 - i" arbitrary: i)
  case 0
  then have "i = 32" by simp
  with "0.prems" show ?case
    by (subst compareWithCurveOrder_loop.simps) (simp add: order_prefix_32)
next
  case (Suc m)
  then have i: "i < 32" "i < length b" by simp_all
  have s: "be_val (take (Suc i) b) = 256 * order_prefix i + uint (b ! i)"
    using i Suc.prems by (simp add: be_val_take_Suc)
  have o: "order_prefix (Suc i) = 256 * order_prefix i + curveOrderByte i"
    using i by (simp add: order_prefix_Suc)
  consider "curveOrderByte i < uint (b ! i)" | "uint (b ! i) < curveOrderByte i"
    | "uint (b ! i) = curveOrderByte i" by linarith
  then show ?case
  proof cases
    case 1
    then have "order_prefix (Suc i) < be_val (take (Suc i) b)" using s o by simp
    then have "CURVE_n < be_val (take 32 b)"
      using i Suc.prems(2) by (intro prefix_greater [of "Suc i"]) simp_all
    with 1 i show ?thesis
      by (subst compareWithCurveOrder_loop.simps) simp
  next
    case 2
    then have "be_val (take (Suc i) b) < order_prefix (Suc i)" using s o by simp
    then have "be_val (take 32 b) < CURVE_n"
      using i Suc.prems(2) by (intro prefix_less [of "Suc i"]) simp_all
    with 2 i show ?thesis
      by (subst compareWithCurveOrder_loop.simps) simp
  next
    case 3
    then have e: "be_val (take (Suc i) b) = order_prefix (Suc i)" using s o by simp
    have "compareWithCurveOrder_loop b 0 (Suc i) =
           (if CURVE_n < be_val (take 32 b) then 1
            else if be_val (take 32 b) < CURVE_n then - 1 else 0)"
      using Suc.hyps(2) i Suc.prems(2) e by (intro Suc.hyps(1)) simp_all
    with 3 i show ?thesis
      by (subst compareWithCurveOrder_loop.simps) simp
  qed
qed

lemma compareWithCurveOrder_value:
  assumes "32 \<le> length b"
  shows "compareWithCurveOrder b 0 =
           (if CURVE_n < be_val (take 32 b) then 1
            else if be_val (take 32 b) < CURVE_n then - 1 else 0)"
  using compareWithCurveOrder_loop_value [of 0 b] assms
  by (simp add: compareWithCurveOrder_def order_prefix_0)

lemma fromSeed_greater_loop_value:
  assumes "i \<le> 32" and "32 \<le> length b" and "be_val (take i b) = order_prefix i"
  shows "fromSeed_greater_loop b i = (CURVE_n < be_val (take 32 b))"
  using assms
proof (induction "32 - i" arbitrary: i)
  case 0
  then have "i = 32" by simp
  with "0.prems" show ?case
    by (subst fromSeed_greater_loop.simps) (simp add: order_prefix_32)
next
  case (Suc m)
  then have i: "i < 32" "i < length b" by simp_all
  have s: "be_val (take (Suc i) b) = 256 * order_prefix i + uint (b ! i)"
    using i Suc.prems by (simp add: be_val_take_Suc)
  have o: "order_prefix (Suc i) = 256 * order_prefix i + curveOrderByte i"
    using i by (simp add: order_prefix_Suc)
  consider "curveOrderByte i < uint (b ! i)" | "uint (b ! i) < curveOrderByte i"
    | "uint (b ! i) = curveOrderByte i" by linarith
  then show ?case
  proof cases
    case 1
    then have "order_prefix (Suc i) < be_val (take (Suc i) b)" using s o by simp
    then have "CURVE_n < be_val (take 32 b)"
      using i Suc.prems(2) by (intro prefix_greater [of "Suc i"]) simp_all
    with 1 i show ?thesis
      by (subst fromSeed_greater_loop.simps) simp
  next
    case 2
    then have "be_val (take (Suc i) b) < order_prefix (Suc i)" using s o by simp
    then have "be_val (take 32 b) < CURVE_n"
      using i Suc.prems(2) by (intro prefix_less [of "Suc i"]) simp_all
    with 2 i show ?thesis
      by (subst fromSeed_greater_loop.simps) simp
  next
    case 3
    then have e: "be_val (take (Suc i) b) = order_prefix (Suc i)" using s o by simp
    have "fromSeed_greater_loop b (Suc i) = (CURVE_n < be_val (take 32 b))"
      using Suc.hyps(2) i Suc.prems(2) e by (intro Suc.hyps(1)) simp_all
    with 3 i show ?thesis
      by (subst fromSeed_greater_loop.simps) simp
  qed
qed

lemma fromSeed_greater_value:
  assumes "32 \<le> length b"
  shows "fromSeed_greater_loop b 0 = (CURVE_n < be_val (take 32 b))"
  using fromSeed_greater_loop_value [of 0 b] assms by (simp add: order_prefix_0)

lemma be_val_zero_iff: "be_val xs = 0 \<longleftrightarrow> list_all (\<lambda>b. b = 0) xs"
proof (induction xs rule: rev_induct)
  case Nil
  then show ?case by simp
next
  case (snoc x xs)
  have "0 \<le> be_val xs" by (rule be_val_nonneg)
  moreover have "0 \<le> uint x" by simp
  ultimately have "256 * be_val xs + uint x = 0 \<longleftrightarrow> be_val xs = 0 \<and> uint x = 0"
    by linarith
  with snoc show ?case by (simp add: uint_0_iff)
qed

lemma isBufferZero_value: "isBufferZero b = (be_val b = 0)"
  by (simp add: isBufferZero_def be_val_zero_iff)

lemma fromSeed_isZero_loop_value:
  assumes "i \<le> 32" and "32 \<le> length b" and "be_val (take i b) = 0"
  shows "fromSeed_isZero_loop b i = (be_val (take 32 b) = 0)"
  using assms
proof (induction "32 - i" arbitrary: i)
  case 0
  then have "i = 32" by simp
  with "0.prems" show ?case
    by (subst fromSeed_isZero_loop.simps) simp
next
  case (Suc m)
  then have i: "i < 32" "i < length b" by simp_all
  have s: "be_val (take (Suc i) b) = uint (b ! i)"
    using i Suc.prems by (simp add: be_val_take_Suc)
  show ?case
  proof (cases "b ! i = 0")
    case True
    then have "be_val (take (Suc i) b) = 0" using s by simp
    then have "fromSeed_isZero_loop b (Suc i) = (be_val (take 32 b) = 0)"
      using Suc.hyps(2) i Suc.prems(2) by (intro Suc.hyps(1)) simp_all
    with True i show ?thesis
      by (subst fromSeed_isZero_loop.simps) simp
  next
    case False
    then have "0 < uint (b ! i)"
      by (metis uint_0_iff uint_nonnegative order_le_less)
    then have "0 < be_val (take (Suc i) b)" using s by simp
    moreover have "be_val (take (Suc i) b) * 256 ^ (32 - Suc i) \<le> be_val (take 32 b)"
      using prefix_brackets [of "Suc i" b] i Suc.prems(2) by simp
    moreover have "be_val (take (Suc i) b) \<le> be_val (take (Suc i) b) * 256 ^ (32 - Suc i)"
      using calculation(1) by (simp add: mult_le_cancel_left1)
    ultimately have "be_val (take 32 b) \<noteq> 0" by linarith
    with False i show ?thesis
      by (subst fromSeed_isZero_loop.simps) simp
  qed
qed

lemma fromSeed_isZero_value:
  assumes "32 \<le> length b"
  shows "fromSeed_isZero_loop b 0 = (be_val (take 32 b) = 0)"
  using fromSeed_isZero_loop_value [of 0 b] assms by simp

subsection \<open>The update step\<close>

lemma mod_one_wrap:
  assumes "(n::int) \<le> s" and "s < 2 * n"
  shows "s mod n = s - n"
proof -
  have "s mod n = (s - n) mod n" by (simp add: minus_mod_self2)
  also have "\<dots> = s - n" using assms by (intro mod_pos_pos_trivial) simp_all
  finally show ?thesis .
qed

lemma W256_facts: "(256::int) ^ 32 = W256" "CURVE_n < W256" "0 < W256"
  by (simp_all add: W256_def CURVE_n_def)

lemma be_val_32_bounds:
  assumes "length xs = 32"
  shows "0 \<le> be_val xs \<and> be_val xs < W256"
  using be_val_nonneg [of xs] be_val_bound [of xs] assms W256_facts(1) by simp

lemma mod_W256_shift: "(a - W256) mod W256 = a mod W256"
  by (simp add: minus_mod_self2)

lemma addPrivateKeys_loop_32:
  assumes "length k = 32" and "32 \<le> length h" and "addPrivateKeys_loop k h 0 32 = (k1, c)"
  shows "be_val k1 + c * W256 = be_val k + be_val (take 32 h) \<and> length k1 = 32 \<and>
         (c = 0 \<or> c = 1)"
proof -
  have l: "length k1 = 32"
    using length_addPrivateKeys_loop [of k h 0 32] assms by simp
  then have t: "take 32 k1 = k1" "take 32 k = k" using assms(1) by simp_all
  have "32 \<le> length k" using assms(1) by simp
  from addPrivateKeys_loop_value [OF this assms(2,3)]
  have "be_val (take 32 k1) + c * 256 ^ 32 = be_val (take 32 k) + be_val (take 32 h) + 0"
    by (rule conjunct1)
  then have e: "be_val k1 + c * W256 = be_val k + be_val (take 32 h)"
    unfolding t W256_facts(1) by simp
  have b1: "0 \<le> be_val k1 \<and> be_val k1 < W256" using l by (rule be_val_32_bounds)
  have b2: "0 \<le> be_val k \<and> be_val k < W256" using assms(1) by (rule be_val_32_bounds)
  have b3: "0 \<le> be_val (take 32 h) \<and> be_val (take 32 h) < W256"
    using assms(2) by (intro be_val_32_bounds) simp
  have "- 1 < c" 
  proof (rule ccontr)
    assume "\<not> - 1 < c"
    then have "c \<le> - 1" by simp
    then have "c * W256 \<le> - 1 * W256" using W256_facts(3) by (intro mult_right_mono) simp_all
    with e b1 b2 b3 show False by linarith
  qed
  moreover have "c < 2"
  proof (rule ccontr)
    assume "\<not> c < 2"
    then have "2 \<le> c" by simp
    then have "2 * W256 \<le> c * W256" using W256_facts(3) by (intro mult_right_mono) simp_all
    with e b1 b2 b3 show False by linarith
  qed
  ultimately have "c = 0 \<or> c = 1" by linarith
  with e l show ?thesis by simp
qed

lemma subtractFromPrivateKey_W256:
  assumes "length t = 32"
  shows "be_val (subtractFromPrivateKey t) = (be_val t - CURVE_n) mod W256"
  using subtractFromPrivateKey_value [OF assms] by (simp add: W256_def)

text \<open>
  The update of utils.js is addition modulo \<open>n\<close>: for a key and an \<open>IL\<close> below \<open>n\<close> it
  leaves \<open>(key + IL) mod n\<close> in the buffer.
\<close>

theorem utils_update_value:
  assumes "length k = 32" and "32 \<le> length h"
    and "be_val k < CURVE_n" and "be_val (take 32 h) < CURVE_n"
  shows "be_val (utils_update k h) = (be_val k + be_val (take 32 h)) mod CURVE_n \<and>
         length (utils_update k h) = 32"
proof -
  obtain k1 c where a: "addPrivateKeys_loop k h 0 32 = (k1, c)"
    by (cases "addPrivateKeys_loop k h 0 32") auto
  define S where "S = be_val k + be_val (take 32 h)"
  from addPrivateKeys_loop_32 [OF assms(1,2) a]
  have e: "be_val k1 + c * W256 = S" and l: "length k1 = 32" and c: "c = 0 \<or> c = 1"
    by (simp_all add: S_def)
  have S: "0 \<le> S" "S < 2 * CURVE_n"
    using be_val_nonneg [of k] be_val_nonneg [of "take 32 h"] assms(3,4) by (simp_all add: S_def)
  have n: "CURVE_n < W256" "0 < CURVE_n" using CURVE_n_bounds W256_facts by simp_all
  have b1: "0 \<le> be_val k1" using be_val_nonneg [of k1] by simp
  have cmp: "(compareWithCurveOrder k1 0 \<ge> 0) = (CURVE_n \<le> be_val k1)"
    using compareWithCurveOrder_value [of k1] l by auto
  have sub: "be_val (subtractFromPrivateKey k1) = (be_val k1 - CURVE_n) mod W256"
    using l by (rule subtractFromPrivateKey_W256)
  have u: "utils_update k h =
      (if c > 0 \<or> CURVE_n \<le> be_val k1 then subtractFromPrivateKey k1 else k1)"
    by (simp add: utils_update_def addPrivateKeys_def a cmp)
  have "be_val (utils_update k h) = S mod CURVE_n"
  proof (cases "c = 1")
    case True
    with e have k1: "be_val k1 = S - W256" by simp
    with b1 n have "CURVE_n \<le> S" by linarith
    then have m: "S mod CURVE_n = S - CURVE_n" using S by (intro mod_one_wrap) simp_all
    have "(be_val k1 - CURVE_n) mod W256 = (S - CURVE_n - W256) mod W256"
      by (simp add: k1 algebra_simps)
    also have "\<dots> = (S - CURVE_n) mod W256" by (rule mod_W256_shift)
    also have "\<dots> = S - CURVE_n"
      using \<open>CURVE_n \<le> S\<close> S n by (intro mod_pos_pos_trivial) linarith+
    finally show ?thesis using True u sub m by simp
  next
    case False
    with c e have k1: "be_val k1 = S" "c = 0" by simp_all
    show ?thesis
    proof (cases "CURVE_n \<le> S")
      case True
      then have m: "S mod CURVE_n = S - CURVE_n" using S by (intro mod_one_wrap) simp_all
      have "(be_val k1 - CURVE_n) mod W256 = S - CURVE_n"
        unfolding k1 using True S n by (intro mod_pos_pos_trivial) linarith+
      with True u sub m k1 show ?thesis by simp
    next
      case False
      then have "S mod CURVE_n = S" using S by (intro mod_pos_pos_trivial) simp_all
      with False u k1 show ?thesis by simp
    qed
  qed
  moreover have "length (utils_update k h) = 32" using assms(1) by simp
  ultimately show ?thesis by (simp add: S_def)
qed

text \<open>
  The inline update of \<^verbatim>\<open>fromSeed\<close> does the same except when the sum is exactly \<open>n\<close>,
  which it leaves in the buffer.
\<close>

theorem fromSeed_update_value:
  assumes "length k = 32" and "32 \<le> length h"
    and "be_val k < CURVE_n" and "be_val (take 32 h) \<le> CURVE_n"
  shows "be_val (fromSeed_update k h) =
           (if be_val k + be_val (take 32 h) = CURVE_n then CURVE_n
            else (be_val k + be_val (take 32 h)) mod CURVE_n) \<and>
         length (fromSeed_update k h) = 32"
proof -
  obtain k1 c where a: "addPrivateKeys_loop k h 0 32 = (k1, c)"
    by (cases "addPrivateKeys_loop k h 0 32") auto
  define S where "S = be_val k + be_val (take 32 h)"
  from addPrivateKeys_loop_32 [OF assms(1,2) a]
  have e: "be_val k1 + c * W256 = S" and l: "length k1 = 32" and c: "c = 0 \<or> c = 1"
    by (simp_all add: S_def)
  have S: "0 \<le> S" "S < 2 * CURVE_n"
    using be_val_nonneg [of k] be_val_nonneg [of "take 32 h"] assms(3,4) by (simp_all add: S_def)
  have n: "CURVE_n < W256" "0 < CURVE_n" using CURVE_n_bounds W256_facts by simp_all
  have b1: "0 \<le> be_val k1" using be_val_nonneg [of k1] by simp
  have gr: "fromSeed_greater_loop k1 0 = (CURVE_n < be_val k1)"
    using fromSeed_greater_value [of k1] l by simp
  have sub: "be_val (subtractFromPrivateKey_loop k1 0 32) = (be_val k1 - CURVE_n) mod W256"
    using subtractFromPrivateKey_W256 [OF l] by (simp add: subtractFromPrivateKey_def)
  have u: "fromSeed_update k h =
      (if c > 0 \<or> CURVE_n < be_val k1 then subtractFromPrivateKey_loop k1 0 32 else k1)"
    by (simp add: fromSeed_update_def a gr Let_def)
  have "be_val (fromSeed_update k h) = (if S = CURVE_n then CURVE_n else S mod CURVE_n)"
  proof (cases "c = 1")
    case True
    with e have k1: "be_val k1 = S - W256" by simp
    with b1 n have g: "CURVE_n < S" by linarith
    then have m: "S mod CURVE_n = S - CURVE_n" using S by (intro mod_one_wrap) simp_all
    have "(be_val k1 - CURVE_n) mod W256 = (S - CURVE_n - W256) mod W256"
      by (simp add: k1 algebra_simps)
    also have "\<dots> = (S - CURVE_n) mod W256" by (rule mod_W256_shift)
    also have "\<dots> = S - CURVE_n"
      using g S n by (intro mod_pos_pos_trivial) linarith+
    finally show ?thesis using True u sub m g by simp
  next
    case False
    with c e have k1: "be_val k1 = S" "c = 0" by simp_all
    consider "CURVE_n < S" | "S = CURVE_n" | "S < CURVE_n" by linarith
    then show ?thesis
    proof cases
      case 1
      then have m: "S mod CURVE_n = S - CURVE_n" using S by (intro mod_one_wrap) simp_all
      have "(be_val k1 - CURVE_n) mod W256 = S - CURVE_n"
        unfolding k1 using 1 S n by (intro mod_pos_pos_trivial) linarith+
      with 1 u sub m k1 show ?thesis by simp
    next
      case 2
      with u k1 show ?thesis by simp
    next
      case 3
      then have "S mod CURVE_n = S" using S by (intro mod_pos_pos_trivial) simp_all
      with 3 u k1 show ?thesis by simp
    qed
  qed
  moreover have "length (fromSeed_update k h) = 32" using assms(1) by simp
  ultimately show ?thesis by (simp add: S_def)
qed

section \<open>The range of the key along a derivation\<close>

lemma derive_loop_invariant:
  assumes step: "\<And>b index b'. I b \<Longrightarrow> step b index = (None, b') \<Longrightarrow> I b'"
    and "I b" and "derive_loop step b indices = (None, b')"
  shows "I b'"
  using assms(2,3)
proof (induction indices arbitrary: b)
  case Nil
  then show ?case by simp
next
  case (Cons index indices)
  show ?case
  proof (cases "step b index")
    case (Pair r c)
    show ?thesis
    proof (cases r)
      case None
      with Pair Cons.prems(2) have "derive_loop step c indices = (None, b')" by simp
      moreover have "I c" using step [OF Cons.prems(1)] Pair None by simp
      ultimately show ?thesis by (rule Cons.IH [rotated])
    next
      case (Some e)
      with Pair Cons.prems(2) show ?thesis by simp
    qed
  qed
qed

lemma derivePrivateKeyBuffer_step_below_order:
  assumes hm: "\<forall>k m. length (hmac_sha512 P k m) = 64"
    and pub: "\<forall>k p. getPublicKey P k True = Inr p \<longrightarrow> length p = 33"
    and "key_below_order b" and "derivePrivateKeyBuffer_step P b index = (None, b')"
  shows "key_below_order b'"
proof -
  from assms(3) have w: "well_sized b" and k: "be_val (privateKeyBuffer b) < CURVE_n"
    and l: "length (privateKeyBuffer b) = 32"
    by (simp_all add: key_below_order_def well_sized_def)
  from assms(4) obtain d where d: "derivation_data P (privateKeyBuffer b) index = Inr d"
    and b': "b' = \<lparr>privateKeyBuffer =
              (if compareWithCurveOrder (hmac_sha512 P (chainCode b) d) 0 \<ge> 0
               then privateKeyBuffer b
               else utils_update (privateKeyBuffer b) (hmac_sha512 P (chainCode b) d)),
            hmacOutputBuffer = hmac_sha512 P (chainCode b) d,
            derivationDataBuffer = d\<rparr>"
    unfolding derivePrivateKeyBuffer_step_eq [OF w hm pub]
    by (cases "derivation_data P (privateKeyBuffer b) index") auto
  have ld: "length d = 37"
    using d l pub by (auto simp: derivation_data_def split: if_splits sum.splits)
  define h where "h = hmac_sha512 P (chainCode b) d"
  have lh: "length h = 64" using hm by (simp add: h_def)
  show ?thesis
  proof (cases "compareWithCurveOrder h 0 \<ge> 0")
    case True
    with b' w k lh ld show ?thesis
      by (simp add: key_below_order_def well_sized_def h_def)
  next
    case False
    then have "be_val (take 32 h) < CURVE_n"
      using compareWithCurveOrder_value [of h] lh by (auto split: if_splits)
    with utils_update_value [of "privateKeyBuffer b" h] l lh k
    have "be_val (utils_update (privateKeyBuffer b) h) < CURVE_n"
      and "length (utils_update (privateKeyBuffer b) h) = 32"
      using CURVE_n_bounds by simp_all
    with False b' lh ld show ?thesis
      by (simp add: key_below_order_def well_sized_def h_def)
  qed
qed

text \<open>
  \<^verbatim>\<open>derivePrivateKeyBuffer\<close> never ends with a key of \<open>n\<close> or more when the master key is
  below \<open>n\<close>.
\<close>

theorem derivePrivateKeyBuffer_key_below_order:
  assumes hm: "\<forall>k m. length (hmac_sha512 P k m) = 64"
    and pub: "\<forall>k p. getPublicKey P k True = Inr p \<longrightarrow> length p = 33"
    and w: "well_sized b"
    and master: "be_val (take 32 (hmac_sha512 P MASTER_SECRET seed)) < CURVE_n"
    and run: "derivePrivateKeyBuffer P seed b path = (None, b')"
  shows "0 \<le> be_val (privateKeyBuffer b') \<and> be_val (privateKeyBuffer b') < CURVE_n \<and>
         length (privateKeyBuffer b') = 32"
proof -
  from hm have l: "length (hmac_sha512 P MASTER_SECRET seed) = 64" by simp
  have "key_below_order
          \<lparr>privateKeyBuffer = take 32 (hmac_sha512 P MASTER_SECRET seed),
           hmacOutputBuffer = hmac_sha512 P MASTER_SECRET seed,
           derivationDataBuffer = derivationDataBuffer b\<rparr>"
    using w l master by (simp add: key_below_order_def well_sized_def)
  moreover have "derive_loop (derivePrivateKeyBuffer_step P)
          \<lparr>privateKeyBuffer = take 32 (hmac_sha512 P MASTER_SECRET seed),
           hmacOutputBuffer = hmac_sha512 P MASTER_SECRET seed,
           derivationDataBuffer = derivationDataBuffer b\<rparr> (parsePath path) = (None, b')"
    using run by (simp add: derivePrivateKeyBuffer_master [OF w l])
  ultimately have "key_below_order b'"
    using derivePrivateKeyBuffer_step_below_order [OF hm pub]
    by (rule derive_loop_invariant [rotated 1])
  then show ?thesis
    using be_val_nonneg [of "privateKeyBuffer b'"]
    by (simp add: key_below_order_def well_sized_def)
qed

text \<open>
  \<^verbatim>\<open>fromSeed\<close> computes the address of the new wallet, so when \<open>getPublicKey\<close> accepts only
  keys from 1 to \<open>n - 1\<close> (as the curve library does), every wallet it returns has such a
  key.
\<close>

theorem fromSeed_wallet_key_in_range:
  assumes valid: "\<forall>k c p. getPublicKey P k c = Inr p \<longrightarrow> 1 \<le> be_val k \<and> be_val k < CURVE_n"
    and run: "fromSeed P seed pk hob ddb bkb path = (Inr w, Some b)"
  shows "wallet_signingKey w = privateKeyBuffer b \<and>
         1 \<le> be_val (privateKeyBuffer b) \<and> be_val (privateKeyBuffer b) < CURVE_n"
  using assms
  by (auto simp: fromSeed_def new_CustomTronSigningKey_def new_CustomTronHDWallet_def
        computeAddress_def split: if_splits prod.splits option.splits sum.splits)

text \<open>
  The lower bound \<open>1 \<le> key\<close> for \<^verbatim>\<open>derivePrivateKeyBuffer\<close> is a matter of the values
  the hash takes, not of the code alone: with a hash whose outputs make the master key 1,
  the first child key 2 and the last left half \<open>n - 2\<close>, every key handed to
  \<open>getPublicKey\<close> is in range, the last sum is \<open>n\<close>, it is reduced to 0 in place, and the
  call on the path \<^verbatim>\<open>m/0\<close> returns normally with an all-zero key buffer. Whether
  HMAC-SHA512 has such outputs for some seed is not known.
\<close>

lemma derivePrivateKeyBuffer_zero_key_by_hash:
  "fst (derivePrivateKeyBuffer (test_primitives hmac_zero_sum) [1, 2, 3] zero_buffers ''m/0'')
     = None \<and>
   privateKeyBuffer
     (snd (derivePrivateKeyBuffer (test_primitives hmac_zero_sum) [1, 2, 3] zero_buffers ''m/0''))
     = replicate 32 0 \<and>
   be_val (privateKeyBuffer
     (snd (derivePrivateKeyBuffer (test_primitives hmac_zero_sum) [1, 2, 3] zero_buffers ''m/0'')))
     = 0"
  by code_simp

section \<open>The message that \<^verbatim>\<open>sign\<close> hashes\<close>

text \<open>
  The two \<^verbatim>\<open>set\<close> calls of \<^verbatim>\<open>sign\<close> fill the fresh array exactly: prefix, then message.
\<close>

lemma prefixedMessage_eq: "prefixedMessage m = Inr (sign_prefix m @ messageBytes m)"
  by (simp add: prefixedMessage_def u8_set_def)

section \<open>C2: a step with \<open>IL \<ge> n\<close>\<close>

text \<open>
  C2 (code defect): a step with \<open>IL \<ge> n\<close> should leave key and chain code as they were.
  Start from key 5 and a chain code of 32 bytes of 9. With \<open>IL = 2^256 - 1\<close> both
  implementations keep the key, but the chain code already is the new right half (32
  bytes of 7): it is a view on \<open>hmacOutputBuffer\<close>, which the HMAC result overwrote before
  the test. With \<open>IL = n\<close> exactly, \<^verbatim>\<open>compareWithCurveOrder\<close> gives 0 and utils.js skips,
  while the inline loop of \<^verbatim>\<open>fromSeed\<close> leaves \<^verbatim>\<open>skip\<close> false and runs the update (which
  turns a key 0 into \<open>n\<close>).
\<close>

theorem skipped_step_overwrites_chain_code:
  "chainCode (step_buffers 5) = replicate 32 9 \<and>
   derivePrivateKeyBuffer_step (test_primitives (hmac_const (2 ^ 256 - 1))) (step_buffers 5) (Num 0)
     = (None, \<lparr>privateKeyBuffer = be_bytes 5,
               hmacOutputBuffer = replicate 32 255 @ replicate 32 7,
               derivationDataBuffer = 2 # be_bytes 5 @ [0, 0, 0, 0]\<rparr>) \<and>
   chainCode (snd (derivePrivateKeyBuffer_step (test_primitives (hmac_const (2 ^ 256 - 1)))
                     (step_buffers 5) (Num 0))) = replicate 32 7 \<and>
   privateKeyBuffer (snd (fromSeed_step (test_primitives (hmac_const (2 ^ 256 - 1)))
                     (step_buffers 5) (Num 0))) = be_bytes 5 \<and>
   chainCode (snd (fromSeed_step (test_primitives (hmac_const (2 ^ 256 - 1)))
                     (step_buffers 5) (Num 0))) = replicate 32 7 \<and>
   compareWithCurveOrder (be_bytes CURVE_n) 0 = 0 \<and>
   fromSeed_greater_loop (be_bytes CURVE_n) 0 = False \<and>
   fromSeed_update (be_bytes 0) (be_bytes CURVE_n) = be_bytes CURVE_n"
  by code_simp

section \<open>C3: a step whose sum is 0 modulo \<open>n\<close>\<close>

text \<open>
  C3 (code defect): when \<open>(currentKey + IL) mod n = 0\<close> the step should be a no-op. Start
  from key 1 and a chain code of 32 bytes of 9, with \<open>IL = n - 1\<close>. In utils.js the key
  buffer ends all zero (the sum was reduced in place before the zero test) and the chain
  code is the new right half. In \<^verbatim>\<open>fromSeed\<close> the key buffer ends holding \<open>n\<close> and the chain
  code is the new right half as well.
\<close>

theorem zero_sum_step_is_not_a_noop:
  "privateKeyBuffer (step_buffers 1) = be_bytes 1 \<and>
   chainCode (step_buffers 1) = replicate 32 9 \<and>
   derivePrivateKeyBuffer_step (test_primitives (hmac_const (CURVE_n - 1))) (step_buffers 1) (Num 0)
     = (None, \<lparr>privateKeyBuffer = replicate 32 0,
               hmacOutputBuffer = be_bytes (CURVE_n - 1) @ replicate 32 7,
               derivationDataBuffer = 2 # be_bytes 1 @ [0, 0, 0, 0]\<rparr>) \<and>
   chainCode (snd (derivePrivateKeyBuffer_step (test_primitives (hmac_const (CURVE_n - 1)))
                     (step_buffers 1) (Num 0))) = replicate 32 7 \<and>
   fromSeed_step (test_primitives (hmac_const (CURVE_n - 1))) (step_buffers 1) (Num 0)
     = (None, \<lparr>privateKeyBuffer = be_bytes CURVE_n,
               hmacOutputBuffer = be_bytes (CURVE_n - 1) @ replicate 32 7,
               derivationDataBuffer = 2 # be_bytes 1 @ [0, 0, 0, 0]\<rparr>)"
  by code_simp

section \<open>C4: the two implementations\<close>

text \<open>
  C4 (code defect): both implementations should read a path as the same indices and end
  with the same key. On \<^verbatim>\<open>m/44'/195'/0'/0/0\<close> the parser of utils.js gives six numbers,
  \<^verbatim>\<open>NaN\<close> for \<^verbatim>\<open>m\<close> and for every hardened component (no offset is added), where
  \<^verbatim>\<open>#parsePath\<close> gives five indices, three of them hardened. On \<^verbatim>\<open>m/0\<close>, with an HMAC
  whose left half is always 1, utils.js runs two steps and ends with key 3, \<^verbatim>\<open>fromSeed\<close>
  runs one and ends with key 2. And on an HMAC output whose left half is exactly \<open>n\<close> the
  range test of utils.js says skip, the one of \<^verbatim>\<open>fromSeed\<close> does not.
\<close>

theorem parsers_and_keys_differ:
  "parsePath ''m/44'/195'/0'/0/0'' = [NaN, NaN, NaN, NaN, Num 0, Num 0] \<and>
   CustomTronHDWallet_parsePath ''m/44'/195'/0'/0/0''
     = Inr [Num 2147483692, Num 2147483843, Num 2147483648, Num 0, Num 0] \<and>
   privateKeyBuffer
     (snd (derivePrivateKeyBuffer (test_primitives (hmac_const 1)) [1, 2, 3] zero_buffers ''m/0''))
     = be_bytes 3 \<and>
   map_option privateKeyBuffer
     (snd (fromSeed (test_primitives (hmac_const 1)) (U8 [1, 2, 3]) (U8 (replicate 32 0))
             (U8 (replicate 64 0)) (U8 (replicate 37 0)) (U8 (replicate 32 0)) ''m/0''))
     = Some (be_bytes 2) \<and>
   (compareWithCurveOrder (hmac_const CURVE_n [] []) 0 \<ge> 0) = True \<and>
   fromSeed_greater_loop (hmac_const CURVE_n [] []) 0 = False"
  by code_simp

section \<open>C5: the update step\<close>

text \<open>
  C5 (code defect): with \<open>currentKey < n\<close> and \<open>IL < n\<close> the update should leave
  \<open>(currentKey + IL) mod n\<close>. At \<open>currentKey = 1\<close>, \<open>IL = n - 1\<close> the sum is exactly
  \<open>n\<close>: the inline comparison of \<^verbatim>\<open>fromSeed\<close> only sets \<^verbatim>\<open>needsModulo\<close> on a byte that
  is greater, so nothing is subtracted and the buffer holds \<open>n\<close>, not \<open>0\<close>; the update of
  \<^verbatim>\<open>derivePrivateKeyBuffer\<close> on the same input gives \<open>0\<close>.
\<close>

theorem fromSeed_update_sum_equals_order:
  "be_val (be_bytes 1) = 1 \<and> be_val (be_bytes (CURVE_n - 1)) = CURVE_n - 1 \<and>
   fromSeed_update (be_bytes 1) (be_bytes (CURVE_n - 1)) = be_bytes CURVE_n \<and>
   be_val (fromSeed_update (be_bytes 1) (be_bytes (CURVE_n - 1))) = CURVE_n \<and>
   (1 + (CURVE_n - 1)) mod CURVE_n = 0 \<and>
   utils_update (be_bytes 1) (be_bytes (CURVE_n - 1)) = be_bytes 0"
  by code_simp

section \<open>C6: the path check of \<^verbatim>\<open>fromSeed\<close>\<close>

lemma js_split_not_Nil: "js_split sep s \<noteq> []"
  by (induction s) (auto split: list.splits)

lemma js_split_leading_empty:
  assumes "js_split sep s = [] # ws" and "ws \<noteq> []"
  shows "\<exists>cs. s = sep # cs \<and> js_split sep cs = ws"
proof (cases s)
  case Nil
  with assms show ?thesis by simp
next
  case (Cons c cs)
  with assms show ?thesis
    by (auto split: if_splits list.splits)
qed

lemma js_split_chars:
  "list_all (list_all Q) (js_split sep cs) \<Longrightarrow> Q sep \<Longrightarrow> list_all Q cs"
proof (induction cs)
  case Nil
  then show ?case by simp
next
  case (Cons c cs)
  then show ?case
    by (cases "js_split sep cs") (auto split: if_splits)
qed

lemma endsWith_snoc: "endsWith w c \<Longrightarrow> w = butlast w @ [c]"
  by (cases w rule: rev_cases) (auto simp: endsWith_def)

lemma spec_component_chars:
  assumes "spec_component w"
  shows "list_all (\<lambda>x. is_digit x \<or> x = apostrophe \<or> x = CHR ''/'') w"
proof (cases "endsWith w apostrophe")
  case True
  then have w: "w = butlast w @ [apostrophe]" by (rule endsWith_snoc)
  from assms True have "list_all is_digit (butlast w)" by (simp add: spec_component_def)
  then have "list_all (\<lambda>x. is_digit x \<or> x = apostrophe \<or> x = CHR ''/'') (butlast w @ [apostrophe])"
    by (simp add: list_all_iff)
  with w show ?thesis by simp
next
  case False
  with assms have "list_all is_digit w" by (simp add: spec_component_def)
  then show ?thesis by (simp add: list_all_iff)
qed

lemma grammar_matches_pattern:
  assumes "spec_path_grammar path"
  shows "path_match path"
proof -
  from assms obtain c rest ws where p: "path = c # rest"
    and c: "c = CHR ''m'' \<or> c = CHR ''M''"
    and sp: "js_split (CHR ''/'') rest = [] # ws" and ws: "ws \<noteq> []"
    and comps: "list_all spec_component ws"
    by (auto simp: spec_path_grammar_def split: list.splits)
  from js_split_leading_empty [OF sp ws] obtain cs where
    rest: "rest = CHR ''/'' # cs" and cs: "js_split (CHR ''/'') cs = ws" by blast
  have "cs \<noteq> []"
  proof
    assume "cs = []"
    with cs comps show False by (auto simp: spec_component_def endsWith_def)
  qed
  moreover have "list_all (\<lambda>x. is_digit x \<or> x = apostrophe \<or> x = CHR ''/'') cs"
  proof (rule js_split_chars)
    show "list_all (list_all (\<lambda>x. is_digit x \<or> x = apostrophe \<or> x = CHR ''/'')) (js_split (CHR ''/'') cs)"
      using comps cs spec_component_chars by (auto simp: list_all_iff)
  qed simp
  ultimately show ?thesis using p c rest by (auto simp: path_match_def)
qed

lemma parsePath_indices:
  assumes "path_match path"
  shows "\<exists>indices. indices \<noteq> [] \<and> CustomTronHDWallet_parsePath path = Inr indices"
proof -
  from assms obtain c rest where p: "path = c # CHR ''/'' # rest"
    and c: "c = CHR ''m'' \<or> c = CHR ''M''"
    by (auto simp: path_match_def split: list.splits)
  have m: "char_of (109::nat) = CHR ''m''" by code_simp
  have "drop 1 (js_split (CHR ''/'') (toLowerCase path)) = js_split (CHR ''/'') (toLowerCase rest)"
    using p c by (auto simp: toLowerCase_def m)
  then show ?thesis
    using assms js_split_not_Nil by (simp add: CustomTronHDWallet_parsePath_def)
qed

lemma fromSeed_master:
  assumes "length pk = 32" and "length hob = 64" and "length (hmac_sha512 P MASTER_SECRET seed) = 64"
  shows "fromSeed_derive P seed
           \<lparr>privateKeyBuffer = pk, hmacOutputBuffer = hob, derivationDataBuffer = ddb\<rparr> path =
         (case CustomTronHDWallet_parsePath path of
            Inl e \<Rightarrow> (Some e, \<lparr>privateKeyBuffer = take 32 (hmac_sha512 P MASTER_SECRET seed),
                     hmacOutputBuffer = hmac_sha512 P MASTER_SECRET seed, derivationDataBuffer = ddb\<rparr>)
          | Inr indices \<Rightarrow> derive_loop (fromSeed_step P)
                     \<lparr>privateKeyBuffer = take 32 (hmac_sha512 P MASTER_SECRET seed),
                     hmacOutputBuffer = hmac_sha512 P MASTER_SECRET seed, derivationDataBuffer = ddb\<rparr> indices)"
  using assms
  by (simp add: fromSeed_derive_def seq_def set_hmacOutput_def set_privateKey_def u8_set_def)

text \<open>
  C6, as the code has it: with well-sized arguments, \<^verbatim>\<open>fromSeed\<close> throws
  \<^verbatim>\<open>Invalid derivation path\<close> exactly for the paths that do not match the pattern
  \<^verbatim>\<open>^[mM]\/[0-9'/]+$\<close>; it does so after the master HMAC has been computed and written
  to \<open>hmacOutputBuffer\<close> and \<open>privateKeyBuffer\<close>, and before any child step. Every path of
  the specification's grammar matches the pattern, and for a matching path parsing gives
  at least one index and the derivation runs the child steps from the master state.
\<close>

theorem fromSeed_path_check:
  assumes "length pk = 32" and "length hob = 64" and "length ddb = 37" and "length bkb = 32"
    and "length (hmac_sha512 P MASTER_SECRET seed) = 64"
  shows "(spec_path_grammar path \<longrightarrow> path_match path) \<and>
         (\<not> path_match path \<longrightarrow>
            fromSeed P (U8 seed) (U8 pk) (U8 hob) (U8 ddb) (U8 bkb) path =
              (Inl (Error ''Invalid derivation path''),
               Some \<lparr>privateKeyBuffer = take 32 (hmac_sha512 P MASTER_SECRET seed),
                     hmacOutputBuffer = hmac_sha512 P MASTER_SECRET seed,
                     derivationDataBuffer = ddb\<rparr>)) \<and>
         (path_match path \<longrightarrow>
            (\<exists>indices. indices \<noteq> [] \<and> CustomTronHDWallet_parsePath path = Inr indices \<and>
               fromSeed_derive P seed
                 \<lparr>privateKeyBuffer = pk, hmacOutputBuffer = hob, derivationDataBuffer = ddb\<rparr> path =
               derive_loop (fromSeed_step P)
                 \<lparr>privateKeyBuffer = take 32 (hmac_sha512 P MASTER_SECRET seed),
                  hmacOutputBuffer = hmac_sha512 P MASTER_SECRET seed,
                  derivationDataBuffer = ddb\<rparr> indices))"
proof (intro conjI impI)
  assume "spec_path_grammar path"
  then show "path_match path" by (rule grammar_matches_pattern)
next
  assume "\<not> path_match path"
  then have "CustomTronHDWallet_parsePath path = Inl (Error ''Invalid derivation path'')"
    by (simp add: CustomTronHDWallet_parsePath_def)
  then show "fromSeed P (U8 seed) (U8 pk) (U8 hob) (U8 ddb) (U8 bkb) path =
              (Inl (Error ''Invalid derivation path''),
               Some \<lparr>privateKeyBuffer = take 32 (hmac_sha512 P MASTER_SECRET seed),
                     hmacOutputBuffer = hmac_sha512 P MASTER_SECRET seed,
                     derivationDataBuffer = ddb\<rparr>)"
    using assms by (simp add: fromSeed_def fromSeed_master)
next
  assume "path_match path"
  then obtain indices where "indices \<noteq> []" "CustomTronHDWallet_parsePath path = Inr indices"
    using parsePath_indices by blast
  then show "\<exists>indices. indices \<noteq> [] \<and> CustomTronHDWallet_parsePath path = Inr indices \<and>
               fromSeed_derive P seed
                 \<lparr>privateKeyBuffer = pk, hmacOutputBuffer = hob, derivationDataBuffer = ddb\<rparr> path =
               derive_loop (fromSeed_step P)
                 \<lparr>privateKeyBuffer = take 32 (hmac_sha512 P MASTER_SECRET seed),
                  hmacOutputBuffer = hmac_sha512 P MASTER_SECRET seed,
                  derivationDataBuffer = ddb\<rparr> indices"
    using assms by (auto simp: fromSeed_master)
qed

text \<open>
  The theorem at work: \<^verbatim>\<open>m/0\<close> is in the grammar and matches; \<^verbatim>\<open>x\<close> does not match and
  is answered by the error, with the master key in the buffers.
\<close>

theorem fromSeed_path_check_witness:
  "spec_path_grammar ''m/0'' \<and> path_match ''m/0'' \<and> \<not> path_match ''x'' \<and>
   fromSeed (test_primitives (hmac_const 1)) (U8 [1, 2, 3]) (U8 (replicate 32 0))
     (U8 (replicate 64 0)) (U8 (replicate 37 0)) (U8 (replicate 32 0)) ''x''
     = (Inl (Error ''Invalid derivation path''),
        Some \<lparr>privateKeyBuffer = take 32 (hmac_const 1 MASTER_SECRET [1, 2, 3]),
              hmacOutputBuffer = hmac_const 1 MASTER_SECRET [1, 2, 3],
              derivationDataBuffer = replicate 37 0\<rparr>)"
proof -
  have l: "length (hmac_sha512 (test_primitives (hmac_const 1)) MASTER_SECRET [1, 2, 3]) = 64"
    by (simp add: test_primitives_def hmac_const_def be_bytes_def)
  have g: "spec_path_grammar ''m/0''" by code_simp
  have x: "\<not> path_match ''x''" by code_simp
  note t = fromSeed_path_check [of "replicate 32 0" "replicate 64 0" "replicate 37 0"
      "replicate 32 0" "test_primitives (hmac_const 1)" "[1, 2, 3]", OF _ _ _ _ l]
  from t [of "''m/0''"] g have "path_match ''m/0''" by simp
  moreover from t [of "''x''"] x
  have "fromSeed (test_primitives (hmac_const 1)) (U8 [1, 2, 3]) (U8 (replicate 32 0))
     (U8 (replicate 64 0)) (U8 (replicate 37 0)) (U8 (replicate 32 0)) ''x''
     = (Inl (Error ''Invalid derivation path''),
        Some \<lparr>privateKeyBuffer = take 32 (hmac_const 1 MASTER_SECRET [1, 2, 3]),
              hmacOutputBuffer = hmac_const 1 MASTER_SECRET [1, 2, 3],
              derivationDataBuffer = replicate 37 0\<rparr>)"
    by (simp add: test_primitives_def)
  ultimately show ?thesis using g x by simp
qed

text \<open>
  C6 as stated fails twice. \<^verbatim>\<open>m//\<close> is not in the grammar, yet no error is raised: the
  two empty components parse to \<^verbatim>\<open>NaN\<close> and are derived as index 0. And for \<^verbatim>\<open>x\<close> the
  error comes after the first HMAC: the key buffer already holds the master key.
\<close>

theorem fromSeed_path_check_counterexample:
  "\<not> spec_path_grammar ''m//'' \<and>
   fst (fromSeed (test_primitives (hmac_const 1)) (U8 [1, 2, 3]) (zeros 32) (zeros 64) (zeros 37)
          (zeros 32) ''m//'')
     = Inr \<lparr>wallet_signingKey = be_bytes 3,
            wallet_address = ''410000000000000000000000000000000000000000''\<rparr> \<and>
   \<not> spec_path_grammar ''x'' \<and>
   fromSeed (test_primitives (hmac_const 1)) (U8 [1, 2, 3]) (zeros 32) (zeros 64) (zeros 37)
     (zeros 32) ''x''
     = (Inl (Error ''Invalid derivation path''),
        Some \<lparr>privateKeyBuffer = be_bytes 1,
              hmacOutputBuffer = be_bytes 1 @ replicate 32 7,
              derivationDataBuffer = replicate 37 0\<rparr>)"
  by code_simp

section \<open>C7: the argument checks of \<^verbatim>\<open>fromSeed\<close>\<close>

text \<open>
  C7, as the code has it: \<^verbatim>\<open>fromSeed\<close> ends before touching a buffer or calling a
  primitive exactly when the seed is not a \<^verbatim>\<open>Uint8Array\<close>, or \<open>privateKeyBuffer\<close> or
  \<open>backupBuffer\<close> is not a \<^verbatim>\<open>Uint8Array\<close> of 32 bytes, or \<open>hmacOutputBuffer\<close> is not one of
  64 bytes, or \<open>derivationDataBuffer\<close> is not one of 37 bytes. It then throws an
  \<^verbatim>\<open>Error\<close> that depends neither on the primitives nor on the path. The length of the seed
  is not looked at.
\<close>

theorem fromSeed_argument_checks:
  "(snd (fromSeed P seed pk hob ddb bkb path) = None) =
     (\<not> (is_Uint8Array seed \<and>
         (is_Uint8Array pk \<and> length (bytes_of pk) = 32) \<and>
         (is_Uint8Array hob \<and> length (bytes_of hob) = 64) \<and>
         (is_Uint8Array ddb \<and> length (bytes_of ddb) = 37) \<and>
         (is_Uint8Array bkb \<and> length (bytes_of bkb) = 32))) \<and>
   (snd (fromSeed P seed pk hob ddb bkb path) = None \<longrightarrow>
      (\<exists>msg. fromSeed P seed pk hob ddb bkb path = (Inl (Error msg), None)) \<and>
      fromSeed P' seed pk hob ddb bkb path' = fromSeed P seed pk hob ddb bkb path)"
  by (auto simp: fromSeed_def split: prod.splits option.splits sum.splits)

text \<open>
  The theorem at work: a seed that is no \<^verbatim>\<open>Uint8Array\<close> ends the call before the buffers
  are touched, whatever the primitives and the path; an empty seed gets past the checks.
\<close>

theorem fromSeed_argument_checks_witness:
  "snd (fromSeed (test_primitives (hmac_const 1)) NotUint8Array (zeros 32) (zeros 64) (zeros 37)
          (zeros 32) ''m/0'') = None \<and>
   fromSeed (test_primitives (hmac_const 2)) NotUint8Array (zeros 32) (zeros 64) (zeros 37)
     (zeros 32) ''x''
   = fromSeed (test_primitives (hmac_const 1)) NotUint8Array (zeros 32) (zeros 64) (zeros 37)
       (zeros 32) ''m/0'' \<and>
   snd (fromSeed (test_primitives (hmac_const 1)) (U8 []) (zeros 32) (zeros 64) (zeros 37)
          (zeros 32) ''m/0'') \<noteq> None"
  using fromSeed_argument_checks [of "test_primitives (hmac_const 1)" NotUint8Array "zeros 32"
      "zeros 64" "zeros 37" "zeros 32" "''m/0''" "test_primitives (hmac_const 2)" "''x''"]
    fromSeed_argument_checks [of "test_primitives (hmac_const 1)" "U8 []" "zeros 32"
      "zeros 64" "zeros 37" "zeros 32" "''m/0''"]
  by (simp add: zeros_def)

text \<open>
  C7 as stated fails: an empty \<^verbatim>\<open>Uint8Array\<close> seed raises no error (a wallet is
  returned); and arguments that pass the four checks the claim lists still raise a size
  error when \<open>backupBuffer\<close> has 31 bytes.
\<close>

theorem fromSeed_argument_checks_counterexample:
  "fst (fromSeed (test_primitives (hmac_const 1)) (U8 []) (zeros 32) (zeros 64) (zeros 37)
          (zeros 32) ''m/0'')
     = Inr \<lparr>wallet_signingKey = be_bytes 2,
            wallet_address = ''410000000000000000000000000000000000000000''\<rparr> \<and>
   fromSeed (test_primitives (hmac_const 1)) (U8 [1, 2, 3]) (zeros 32) (zeros 64) (zeros 37)
     (zeros 31) ''m/0''
     = (Inl (Error ''backupBuffer must be a 32-byte Uint8Array''), None)"
  by code_simp

section \<open>C8: determinism\<close>

lemma derive_loop_same_key_state:
  assumes step: "\<And>b b' index. same_key_state b b' \<Longrightarrow>
            (\<exists>e. step b index = (Some e, b) \<and> step b' index = (Some e, b')) \<or>
            (\<exists>c. step b index = (None, c) \<and> step b' index = (None, c))"
    and "same_key_state b b'"
  shows "fst (derive_loop step b indices) = fst (derive_loop step b' indices) \<and>
         privateKeyBuffer (snd (derive_loop step b indices)) =
           privateKeyBuffer (snd (derive_loop step b' indices)) \<and>
         hmacOutputBuffer (snd (derive_loop step b indices)) =
           hmacOutputBuffer (snd (derive_loop step b' indices))"
  using assms(2)
proof (induction indices arbitrary: b b')
  case Nil
  then show ?case by (simp add: same_key_state_def)
next
  case (Cons index indices)
  from step [OF Cons.prems, of index] show ?case
  proof
    assume "\<exists>e. step b index = (Some e, b) \<and> step b' index = (Some e, b')"
    with Cons.prems show ?thesis by (auto simp: same_key_state_def)
  next
    assume "\<exists>c. step b index = (None, c) \<and> step b' index = (None, c)"
    then show ?thesis by auto
  qed
qed

lemma derivePrivateKeyBuffer_step_same:
  assumes "\<forall>k m. length (hmac_sha512 P k m) = 64"
    and "\<forall>k p. getPublicKey P k True = Inr p \<longrightarrow> length p = 33"
    and "same_key_state b b'"
  shows "(\<exists>e. derivePrivateKeyBuffer_step P b index = (Some e, b) \<and>
              derivePrivateKeyBuffer_step P b' index = (Some e, b')) \<or>
         (\<exists>c. derivePrivateKeyBuffer_step P b index = (None, c) \<and>
              derivePrivateKeyBuffer_step P b' index = (None, c))"
proof -
  from assms(3) have w: "well_sized b" "well_sized b'"
    and k: "privateKeyBuffer b = privateKeyBuffer b'"
    and h: "chainCode b = chainCode b'"
    by (simp_all add: same_key_state_def chainCode_def)
  show ?thesis
    by (cases "derivation_data P (privateKeyBuffer b') index")
       (simp_all add: derivePrivateKeyBuffer_step_eq [OF w(1) assms(1,2)]
          derivePrivateKeyBuffer_step_eq [OF w(2) assms(1,2)] k h)
qed

lemma fromSeed_step_same:
  assumes "\<forall>k m. length (hmac_sha512 P k m) = 64"
    and "\<forall>k p. getPublicKey P k True = Inr p \<longrightarrow> length p = 33"
    and "same_key_state b b'"
  shows "(\<exists>e. fromSeed_step P b index = (Some e, b) \<and>
              fromSeed_step P b' index = (Some e, b')) \<or>
         (\<exists>c. fromSeed_step P b index = (None, c) \<and>
              fromSeed_step P b' index = (None, c))"
proof -
  from assms(3) have w: "well_sized b" "well_sized b'"
    and k: "privateKeyBuffer b = privateKeyBuffer b'"
    and h: "chainCode b = chainCode b'"
    by (simp_all add: same_key_state_def chainCode_def)
  show ?thesis
    by (cases "derivation_data P (privateKeyBuffer b') index")
       (simp_all add: fromSeed_step_eq [OF w(1) assms(1,2)]
          fromSeed_step_eq [OF w(2) assms(1,2)] k h)
qed

lemma master_same_key_state:
  assumes "well_sized b" and "well_sized b'" and "length I = 64"
  shows "same_key_state
           \<lparr>privateKeyBuffer = take 32 I, hmacOutputBuffer = I,
            derivationDataBuffer = derivationDataBuffer b\<rparr>
           \<lparr>privateKeyBuffer = take 32 I, hmacOutputBuffer = I,
            derivationDataBuffer = derivationDataBuffer b'\<rparr>"
  using assms by (simp add: same_key_state_def well_sized_def)

lemma derivePrivateKeyBuffer_scratch:
  assumes hm: "\<forall>k m. length (hmac_sha512 P k m) = 64"
    and pub: "\<forall>k p. getPublicKey P k True = Inr p \<longrightarrow> length p = 33"
    and w: "well_sized b" "well_sized b'"
  shows "fst (derivePrivateKeyBuffer P seed b path) = fst (derivePrivateKeyBuffer P seed b' path) \<and>
         privateKeyBuffer (snd (derivePrivateKeyBuffer P seed b path)) =
           privateKeyBuffer (snd (derivePrivateKeyBuffer P seed b' path))"
proof -
  from hm have l: "length (hmac_sha512 P MASTER_SECRET seed) = 64" by simp
  show ?thesis
    using derive_loop_same_key_state
      [of "derivePrivateKeyBuffer_step P", OF derivePrivateKeyBuffer_step_same [OF hm pub]
         master_same_key_state [OF w l], of "parsePath path"]
    by (simp add: derivePrivateKeyBuffer_master [OF w(1) l] derivePrivateKeyBuffer_master [OF w(2) l])
qed

lemma fromSeed_derive_scratch:
  assumes hm: "\<forall>k m. length (hmac_sha512 P k m) = 64"
    and pub: "\<forall>k p. getPublicKey P k True = Inr p \<longrightarrow> length p = 33"
    and w: "well_sized b" "well_sized b'"
  shows "fst (fromSeed_derive P seed b path) = fst (fromSeed_derive P seed b' path) \<and>
         privateKeyBuffer (snd (fromSeed_derive P seed b path)) =
           privateKeyBuffer (snd (fromSeed_derive P seed b' path))"
proof -
  from hm have l: "length (hmac_sha512 P MASTER_SECRET seed) = 64" by simp
  show ?thesis
  proof (cases "CustomTronHDWallet_parsePath path")
    case (Inl e)
    then show ?thesis
      by (simp add: fromSeed_derive_master [OF w(1) l] fromSeed_derive_master [OF w(2) l])
  next
    case (Inr indices)
    then show ?thesis
      using derive_loop_same_key_state
        [of "fromSeed_step P", OF fromSeed_step_same [OF hm pub]
           master_same_key_state [OF w l], of indices]
      by (simp add: fromSeed_derive_master [OF w(1) l] fromSeed_derive_master [OF w(2) l])
  qed
qed

text \<open>
  C8: the derivation is a function of the seed and the path. Whatever the three scratch
  buffers (and \<open>backupBuffer\<close>) hold when the call starts, two runs on the same seed and
  path end the same way (normally, or with the same error) and with byte-identical key
  buffers, in \<^verbatim>\<open>derivePrivateKeyBuffer\<close> and in \<^verbatim>\<open>fromSeed\<close>. The primitives are the
  functions they are: an HMAC of 64 bytes, a compressed public key of 33 bytes.
\<close>

theorem derivation_depends_on_seed_and_path_only:
  assumes hm: "\<forall>k m. length (hmac_sha512 P k m) = 64"
    and pub: "\<forall>k p. getPublicKey P k True = Inr p \<longrightarrow> length p = 33"
    and w: "well_sized b" "well_sized b'"
    and bk: "length backup = 32" "length backup' = 32"
  shows "fst (derivePrivateKeyBuffer P seed b path) = fst (derivePrivateKeyBuffer P seed b' path) \<and>
         privateKeyBuffer (snd (derivePrivateKeyBuffer P seed b path)) =
           privateKeyBuffer (snd (derivePrivateKeyBuffer P seed b' path)) \<and>
         fst (fromSeed P (U8 seed) (U8 (privateKeyBuffer b)) (U8 (hmacOutputBuffer b))
                (U8 (derivationDataBuffer b)) (U8 backup) path) =
         fst (fromSeed P (U8 seed) (U8 (privateKeyBuffer b')) (U8 (hmacOutputBuffer b'))
                (U8 (derivationDataBuffer b')) (U8 backup') path) \<and>
         map_option privateKeyBuffer
           (snd (fromSeed P (U8 seed) (U8 (privateKeyBuffer b)) (U8 (hmacOutputBuffer b))
                   (U8 (derivationDataBuffer b)) (U8 backup) path)) =
         map_option privateKeyBuffer
           (snd (fromSeed P (U8 seed) (U8 (privateKeyBuffer b')) (U8 (hmacOutputBuffer b'))
                   (U8 (derivationDataBuffer b')) (U8 backup') path))"
proof -
  have b: "\<lparr>privateKeyBuffer = privateKeyBuffer b, hmacOutputBuffer = hmacOutputBuffer b,
            derivationDataBuffer = derivationDataBuffer b\<rparr> = b"
    and b': "\<lparr>privateKeyBuffer = privateKeyBuffer b', hmacOutputBuffer = hmacOutputBuffer b',
            derivationDataBuffer = derivationDataBuffer b'\<rparr> = b'"
    by simp_all
  from fromSeed_derive_scratch [OF hm pub w, of seed path]
  obtain r k c c' where d: "fromSeed_derive P seed b path = (r, c)"
      "fromSeed_derive P seed b' path = (r, c')"
      "privateKeyBuffer c = k" "privateKeyBuffer c' = k"
    by (cases "fromSeed_derive P seed b path"; cases "fromSeed_derive P seed b' path") auto
  have "fst (fromSeed P (U8 seed) (U8 (privateKeyBuffer b)) (U8 (hmacOutputBuffer b))
                (U8 (derivationDataBuffer b)) (U8 backup) path) =
         fst (fromSeed P (U8 seed) (U8 (privateKeyBuffer b')) (U8 (hmacOutputBuffer b'))
                (U8 (derivationDataBuffer b')) (U8 backup') path) \<and>
         map_option privateKeyBuffer
           (snd (fromSeed P (U8 seed) (U8 (privateKeyBuffer b)) (U8 (hmacOutputBuffer b))
                   (U8 (derivationDataBuffer b)) (U8 backup) path)) =
         map_option privateKeyBuffer
           (snd (fromSeed P (U8 seed) (U8 (privateKeyBuffer b')) (U8 (hmacOutputBuffer b'))
                   (U8 (derivationDataBuffer b')) (U8 backup') path))"
    using w bk d
    by (auto simp: fromSeed_def well_sized_def b b' split: option.splits sum.splits)
  with derivePrivateKeyBuffer_scratch [OF hm pub w, of seed path] show ?thesis by simp
qed

text \<open>The theorem at work: zeroed buffers against buffers left over from another run.\<close>

theorem derivation_depends_on_seed_and_path_only_witness:
  "well_sized zero_buffers \<and> well_sized (step_buffers 5) \<and>
   privateKeyBuffer (snd (derivePrivateKeyBuffer (test_primitives (hmac_const 1)) [1, 2, 3]
                            zero_buffers ''m/0'')) =
   privateKeyBuffer (snd (derivePrivateKeyBuffer (test_primitives (hmac_const 1)) [1, 2, 3]
                            (step_buffers 5) ''m/0'')) \<and>
   fst (fromSeed (test_primitives (hmac_const 1)) (U8 [1, 2, 3]) (U8 (replicate 32 0))
          (U8 (replicate 64 0)) (U8 (replicate 37 0)) (U8 (replicate 32 0)) ''m/0'') =
   fst (fromSeed (test_primitives (hmac_const 1)) (U8 [1, 2, 3]) (U8 (be_bytes 5))
          (U8 (replicate 32 0 @ replicate 32 9)) (U8 (replicate 37 0)) (U8 (replicate 32 4))
          ''m/0'')"
proof -
  have hm: "\<forall>k m. length (hmac_sha512 (test_primitives (hmac_const 1)) k m) = 64"
    by (simp add: test_primitives_def hmac_const_def be_bytes_def)
  have pub: "\<forall>k p. getPublicKey (test_primitives (hmac_const 1)) k True = Inr p
               \<longrightarrow> length p = 33"
    by (auto simp: test_primitives_def test_getPublicKey_def split: if_splits)
  have w: "well_sized zero_buffers" "well_sized (step_buffers 5)"
    by (simp_all add: well_sized_def zero_buffers_def step_buffers_def be_bytes_def)
  have bk: "length (replicate 32 (0::byte)) = 32" "length (replicate 32 (4::byte)) = 32"
    by simp_all
  from derivation_depends_on_seed_and_path_only [OF hm pub w bk, of "[1, 2, 3]" "''m/0''"] w
  show ?thesis
    by (simp add: zero_buffers_def step_buffers_def)
qed

section \<open>C9: after \<^verbatim>\<open>dispose\<close>\<close>

text \<open>
  C9, as the code has it. Let the account hold its three buffers and let \<^verbatim>\<open>dispose\<close> end
  with outcome \<open>e\<close>, store \<open>h'\<close> and account \<open>a'\<close>. Then \<^verbatim>\<open>dispose\<close> returned normally;
  each of the three arrays holds only zero bytes, of its former length (also for whoever
  kept a reference), and no other array changed; all five fields that \<^verbatim>\<open>dispose\<close> assigns
  (the three buffers, the signing key, \<^verbatim>\<open>tronWeb\<close>) are \<^verbatim>\<open>null\<close> and the path is kept; a
  later \<^verbatim>\<open>sign\<close> throws a TypeError whatever the signing function and the message,
  \<^verbatim>\<open>verify\<close> returns \<^verbatim>\<open>false\<close>, the \<^verbatim>\<open>path\<close> getter still returns the path, and a second
  \<^verbatim>\<open>dispose\<close> throws the assertion error of \<^verbatim>\<open>sodium_memzero\<close> and changes nothing.
  The same for \<^verbatim>\<open>close\<close> of the older class, over its four buffers, its wallet and its
  \<^verbatim>\<open>tronWeb\<close>.
\<close>

theorem dispose_effects:
  assumes "acc_privateKeyBuffer a = Some r1" and "h r1 = Some key"
    and "acc_hmacOutputBuffer a = Some r2" and "h r2 = Some hm"
    and "acc_derivationDataBuffer a = Some r3" and "h r3 = Some dd"
    and "dispose h a = (e, h', a')"
    and "acc0_privateKeyBuffer a0 = Some q1" and "h0 q1 = Some key0"
    and "acc0_hmacOutputBuffer a0 = Some q2" and "h0 q2 = Some hm0"
    and "acc0_derivationDataBuffer a0 = Some q3" and "h0 q3 = Some dd0"
    and "acc0_backupBuffer a0 = Some q4" and "h0 q4 = Some bk0"
    and "close h0 a0 = (e0, h0', a0')"
  shows "e = None \<and>
         h' r1 = Some (replicate (length key) 0) \<and>
         h' r2 = Some (replicate (length hm) 0) \<and>
         h' r3 = Some (replicate (length dd) 0) \<and>
         h' = h(r1 \<mapsto> replicate (length key) 0, r2 \<mapsto> replicate (length hm) 0,
                r3 \<mapsto> replicate (length dd) 0) \<and>
         acc_privateKeyBuffer a' = None \<and>
         acc_hmacOutputBuffer a' = None \<and>
         acc_derivationDataBuffer a' = None \<and>
         acc_signingKey a' = None \<and>
         acc_tronWeb a' = False \<and>
         acc_path a' = acc_path a \<and>
         WalletAccountTron_sign P signingKey_sign h' a' m = Inl TypeError \<and>
         WalletAccountTron_verify verifyMessageV2 a' m s = Inr False \<and>
         WalletAccountTron_path a' = Inr (acc_path a) \<and>
         dispose h' a' = (Some AssertionError, h', a') \<and>
         e0 = None \<and>
         h0' q1 = Some (replicate (length key0) 0) \<and>
         h0' q2 = Some (replicate (length hm0) 0) \<and>
         h0' q3 = Some (replicate (length dd0) 0) \<and>
         h0' q4 = Some (replicate (length bk0) 0) \<and>
         h0' = h0(q1 \<mapsto> replicate (length key0) 0, q2 \<mapsto> replicate (length hm0) 0,
                  q3 \<mapsto> replicate (length dd0) 0, q4 \<mapsto> replicate (length bk0) 0) \<and>
         acc0_privateKeyBuffer a0' = None \<and>
         acc0_hmacOutputBuffer a0' = None \<and>
         acc0_derivationDataBuffer a0' = None \<and>
         acc0_backupBuffer a0' = None \<and>
         acc0_wallet a0' = None \<and>
         acc0_tronWeb a0' = False \<and>
         acc0_path a0' = acc0_path a0 \<and>
         WalletAccountTron0_sign P h0' a0' m = Inl TypeError \<and>
         WalletAccountTron0_path a0' = Inr (acc0_path a0) \<and>
         close h0' a0' = (Some AssertionError, h0', a0')"
proof -
  have d: "dispose h a =
      (None,
       h(r1 \<mapsto> replicate (length key) 0, r2 \<mapsto> replicate (length hm) 0,
         r3 \<mapsto> replicate (length dd) 0),
       a\<lparr>acc_privateKeyBuffer := None, acc_hmacOutputBuffer := None,
         acc_derivationDataBuffer := None, acc_signingKey := None, acc_tronWeb := False\<rparr>)"
    using assms(1-6) by (auto simp: dispose_def sodium_memzero_def)
  have c: "close h0 a0 =
      (None,
       h0(q1 \<mapsto> replicate (length key0) 0, q2 \<mapsto> replicate (length hm0) 0,
          q3 \<mapsto> replicate (length dd0) 0, q4 \<mapsto> replicate (length bk0) 0),
       a0\<lparr>acc0_privateKeyBuffer := None, acc0_hmacOutputBuffer := None,
         acc0_derivationDataBuffer := None, acc0_backupBuffer := None,
         acc0_wallet := None, acc0_tronWeb := False\<rparr>)"
    using assms(8-15) by (auto simp: close_def sodium_memzero_def)
  have e: "e = None"
    and h': "h' = h(r1 \<mapsto> replicate (length key) 0, r2 \<mapsto> replicate (length hm) 0,
                    r3 \<mapsto> replicate (length dd) 0)"
    and a': "a' = a\<lparr>acc_privateKeyBuffer := None, acc_hmacOutputBuffer := None,
         acc_derivationDataBuffer := None, acc_signingKey := None, acc_tronWeb := False\<rparr>"
    using d assms(7) by simp_all
  have e0: "e0 = None"
    and h0': "h0' = h0(q1 \<mapsto> replicate (length key0) 0, q2 \<mapsto> replicate (length hm0) 0,
          q3 \<mapsto> replicate (length dd0) 0, q4 \<mapsto> replicate (length bk0) 0)"
    and a0': "a0' = a0\<lparr>acc0_privateKeyBuffer := None, acc0_hmacOutputBuffer := None,
         acc0_derivationDataBuffer := None, acc0_backupBuffer := None,
         acc0_wallet := None, acc0_tronWeb := False\<rparr>"
    using c assms(16) by simp_all
  have b1: "h' r1 = Some (replicate (length key) 0)"
    and b2: "h' r2 = Some (replicate (length hm) 0)"
    and b3: "h' r3 = Some (replicate (length dd) 0)"
    using assms(2,4,6) by (auto simp: h')
  have k1: "h0' q1 = Some (replicate (length key0) 0)"
    and k2: "h0' q2 = Some (replicate (length hm0) 0)"
    and k3: "h0' q3 = Some (replicate (length dd0) 0)"
    and k4: "h0' q4 = Some (replicate (length bk0) 0)"
    using assms(9,11,13,15) by (auto simp: h0')
  have f: "acc_privateKeyBuffer a' = None \<and> acc_hmacOutputBuffer a' = None \<and>
           acc_derivationDataBuffer a' = None \<and> acc_signingKey a' = None \<and>
           acc_tronWeb a' = False \<and> acc_path a' = acc_path a"
    by (simp add: a')
  have f0: "acc0_privateKeyBuffer a0' = None \<and> acc0_hmacOutputBuffer a0' = None \<and>
            acc0_derivationDataBuffer a0' = None \<and> acc0_backupBuffer a0' = None \<and>
            acc0_wallet a0' = None \<and> acc0_tronWeb a0' = False \<and>
            acc0_path a0' = acc0_path a0"
    by (simp add: a0')
  have s: "WalletAccountTron_sign P signingKey_sign h' a' m = Inl TypeError"
    using f by (simp add: WalletAccountTron_sign_def prefixedMessage_eq)
  have v: "WalletAccountTron_verify verifyMessageV2 a' m s = Inr False"
    using f by (simp add: WalletAccountTron_verify_def)
  have p: "WalletAccountTron_path a' = Inr (acc_path a)"
    using f by (simp add: WalletAccountTron_path_def)
  have again: "dispose h' a' = (Some AssertionError, h', a')"
    using f by (simp add: dispose_def sodium_memzero_def)
  have s0: "WalletAccountTron0_sign P h0' a0' m = Inl TypeError"
    using f0 by (simp add: WalletAccountTron0_sign_def)
  have p0: "WalletAccountTron0_path a0' = Inr (acc0_path a0)"
    using f0 by (simp add: WalletAccountTron0_path_def)
  have again0: "close h0' a0' = (Some AssertionError, h0', a0')"
    using f0 by (simp add: close_def sodium_memzero_def)
  show ?thesis
    using e b1 b2 b3 h' f s v p again e0 k1 k2 k3 k4 h0' f0 s0 p0 again0 by blast
qed

text \<open>
  The theorem at work on \<open>test_account\<close> and \<open>test_account0\<close>, whose buffers hold a key 5
  and bytes 1, 2 and 3.
\<close>

theorem dispose_effects_witness:
  "fst (dispose test_store test_account) = None \<and>
   fst (snd (dispose test_store test_account)) 0 = Some (replicate 32 0) \<and>
   fst (snd (dispose test_store test_account)) 1 = Some (replicate 64 0) \<and>
   fst (snd (dispose test_store test_account)) 2 = Some (replicate 37 0) \<and>
   acc_signingKey (snd (snd (dispose test_store test_account))) = None \<and>
   acc_tronWeb (snd (snd (dispose test_store test_account))) = False \<and>
   WalletAccountTron_sign (test_primitives (hmac_const 1)) test_signingKey_sign
     (fst (snd (dispose test_store test_account))) (snd (snd (dispose test_store test_account)))
     (Text ''hi'') = Inl TypeError \<and>
   fst (dispose (fst (snd (dispose test_store test_account)))
          (snd (snd (dispose test_store test_account)))) = Some AssertionError \<and>
   fst (close test_store0 test_account0) = None \<and>
   fst (snd (close test_store0 test_account0)) 0 = Some (replicate 32 0) \<and>
   fst (snd (close test_store0 test_account0)) 1 = Some (replicate 64 0) \<and>
   fst (snd (close test_store0 test_account0)) 2 = Some (replicate 37 0) \<and>
   fst (snd (close test_store0 test_account0)) 3 = Some (replicate 32 0) \<and>
   acc0_wallet (snd (snd (close test_store0 test_account0))) = None \<and>
   acc0_tronWeb (snd (snd (close test_store0 test_account0))) = False \<and>
   WalletAccountTron0_sign (test_primitives (hmac_const 1))
     (fst (snd (close test_store0 test_account0))) (snd (snd (close test_store0 test_account0)))
     (Text ''hi'') = Inl TypeError \<and>
   fst (close (fst (snd (close test_store0 test_account0)))
          (snd (snd (close test_store0 test_account0)))) = Some AssertionError"
proof -
  have length_key: "length (be_bytes 5) = 32"
    by (simp add: be_bytes_def)
  have fields: "acc_privateKeyBuffer test_account = Some 0"
    "acc_hmacOutputBuffer test_account = Some 1"
    "acc_derivationDataBuffer test_account = Some 2"
    by (simp_all add: test_account_def)
  have contents: "test_store 0 = Some (be_bytes 5)" "test_store 1 = Some (replicate 64 1)"
    "test_store 2 = Some (replicate 37 2)"
    by (simp_all add: test_store_def)
  have fields0: "acc0_privateKeyBuffer test_account0 = Some 0"
    "acc0_hmacOutputBuffer test_account0 = Some 1"
    "acc0_derivationDataBuffer test_account0 = Some 2"
    "acc0_backupBuffer test_account0 = Some 3"
    by (simp_all add: test_account0_def)
  have contents0: "test_store0 0 = Some (be_bytes 5)" "test_store0 1 = Some (replicate 64 1)"
    "test_store0 2 = Some (replicate 37 2)" "test_store0 3 = Some (replicate 32 3)"
    by (simp_all add: test_store0_def test_store_def)
  have run: "dispose test_store test_account =
      (fst (dispose test_store test_account), fst (snd (dispose test_store test_account)),
       snd (snd (dispose test_store test_account)))"
    by simp
  have run0: "close test_store0 test_account0 =
      (fst (close test_store0 test_account0), fst (snd (close test_store0 test_account0)),
       snd (snd (close test_store0 test_account0)))"
    by simp
  note t = dispose_effects [OF fields(1) contents(1) fields(2) contents(2) fields(3) contents(3)
      run fields0(1) contents0(1) fields0(2) contents0(2) fields0(3) contents0(3)
      fields0(4) contents0(4) run0,
      of "test_primitives (hmac_const 1)" test_signingKey_sign "Text ''hi''",
      unfolded length_key length_replicate]
  from t have "dispose (fst (snd (dispose test_store test_account)))
      (snd (snd (dispose test_store test_account)))
      = (Some AssertionError, fst (snd (dispose test_store test_account)),
         snd (snd (dispose test_store test_account)))"
    by blast
  then have again: "fst (dispose (fst (snd (dispose test_store test_account)))
          (snd (snd (dispose test_store test_account)))) = Some AssertionError"
    by simp
  from t have "close (fst (snd (close test_store0 test_account0)))
      (snd (snd (close test_store0 test_account0)))
      = (Some AssertionError, fst (snd (close test_store0 test_account0)),
         snd (snd (close test_store0 test_account0)))"
    by blast
  then have again0: "fst (close (fst (snd (close test_store0 test_account0)))
          (snd (snd (close test_store0 test_account0)))) = Some AssertionError"
    by simp
  from t again again0 show ?thesis
    by blast
qed

text \<open>
  C9 as stated fails: after \<^verbatim>\<open>dispose\<close> not every operation fails. The \<^verbatim>\<open>path\<close> getter
  returns the path (the repository's test expects it) and \<^verbatim>\<open>verify\<close> returns \<^verbatim>\<open>false\<close>;
  \<^verbatim>\<open>sign\<close> fails with the TypeError of a read on \<^verbatim>\<open>null\<close>, the code has no error of its
  own for a disposed key. After \<^verbatim>\<open>close\<close> the path is returned as well.
\<close>

theorem dispose_effects_counterexample:
  "fst (dispose test_store test_account) = None \<and>
   WalletAccountTron_path (snd (snd (dispose test_store test_account)))
     = Inr ''m/44'/195'/0'/0/0'' \<and>
   WalletAccountTron_verify test_verifyMessageV2 (snd (snd (dispose test_store test_account)))
     (Text ''hi'') ''0x00'' = Inr False \<and>
   WalletAccountTron_sign (test_primitives (hmac_const 1)) test_signingKey_sign
     (fst (snd (dispose test_store test_account))) (snd (snd (dispose test_store test_account)))
     (Text ''hi'') = Inl TypeError \<and>
   fst (close test_store0 test_account0) = None \<and>
   WalletAccountTron0_path (snd (snd (close test_store0 test_account0)))
     = Inr ''m/44'/195'/0'/0/0''"
  by code_simp

section \<open>C10: what \<^verbatim>\<open>sign\<close> signs\<close>

lemma small_cases:
  "(d::nat) < 10 \<Longrightarrow>
   d = 0 \<or> d = 1 \<or> d = 2 \<or> d = 3 \<or> d = 4 \<or> d = 5 \<or> d = 6 \<or> d = 7 \<or> d = 8 \<or> d = 9"
  by arith

lemma hex_digit_decimal:
  "d < 10 \<Longrightarrow> of_char (hex_digit d) - 48 = d"
  using small_cases [of d] by (auto simp: hex_digit_def)

lemma hex_digit_is_decimal: "d < 10 \<Longrightarrow> hex_digit d \<in> set ''0123456789''"
  using small_cases [of d] by (auto simp: hex_digit_def)

lemma hex_digit_zero: "d < 10 \<Longrightarrow> hex_digit d = CHR ''0'' \<Longrightarrow> d = 0"
  using small_cases [of d] by (auto simp: hex_digit_def)

lemma toString10_value:
  "foldl (\<lambda>acc c. 10 * acc + (of_char c - 48)) 0 (toString10 n) = n"
proof (induction n rule: toString10.induct)
  case (1 n)
  show ?case
  proof (cases "n < 10")
    case True
    then show ?thesis
      using hex_digit_decimal [of n] by (subst toString10.simps) simp
  next
    case False
    then have "foldl (\<lambda>acc c. 10 * acc + (of_char c - 48)) 0 (toString10 (n div 10)) = n div 10"
      using "1.IH" by simp
    moreover have "n mod 10 < 10" by simp
    ultimately show ?thesis
      using False hex_digit_decimal [of "n mod 10"] by (subst toString10.simps) simp
  qed
qed

lemma toString10_decimal: "set (toString10 n) \<subseteq> set ''0123456789''"
proof (induction n rule: toString10.induct)
  case (1 n)
  note d = hex_digit_is_decimal
  show ?case
  proof (cases "n < 10")
    case True
    then show ?thesis using d [of n] by (subst toString10.simps) simp
  next
    case False
    then show ?thesis
      using "1.IH" d [of "n mod 10"] by (subst toString10.simps) simp
  qed
qed

lemma toString10_not_empty: "toString10 n \<noteq> []"
  by (subst toString10.simps) simp

lemma toString10_leading: "n = 0 \<or> hd (toString10 n) \<noteq> CHR ''0''"
proof (induction n rule: toString10.induct)
  case (1 n)
  show ?case
  proof (cases "n < 10")
    case True
    then show ?thesis
      using hex_digit_zero [of n] by (subst toString10.simps) auto
  next
    case False
    then have "n div 10 \<noteq> 0" by simp
    then have "hd (toString10 (n div 10)) \<noteq> CHR ''0''"
      using "1.IH" False by simp
    then show ?thesis
      using False toString10_not_empty [of "n div 10"] by (subst toString10.simps) simp
  qed
qed

lemma toString10_zero: "toString10 0 = ''0''"
  by (subst toString10.simps) (simp add: hex_digit_def)

lemma sign_prefix_bytes:
  "sign_prefix m =
     [0x19, 0x54, 0x52, 0x4F, 0x4E, 0x20, 0x53, 0x69, 0x67, 0x6E, 0x65, 0x64, 0x20,
      0x4D, 0x65, 0x73, 0x73, 0x61, 0x67, 0x65, 0x3A, 0x0A]
     @ map (\<lambda>c. of_nat (of_char c)) (toString10 (length (messageBytes m)))"
  by (simp add: sign_prefix_def TextEncoder_encode_def)

text \<open>
  C10: \<^verbatim>\<open>sign\<close> hands to the signing key exactly the keccak256 digest of: the byte
  0x19, the 20 ASCII bytes of \<^verbatim>\<open>TRON Signed Message:\<close>, a line feed, the ASCII decimal
  digits of the byte length of the message, and then the message itself, which is the
  UTF-8 bytes of a text message and the bytes as they are of a byte message. This holds
  in \<^verbatim>\<open>CustomTronHDWallet.sign\<close> always and in \<^verbatim>\<open>WalletAccountTron.sign\<close> whenever the
  signing key is there (otherwise the call throws). The digits of a number \<open>n\<close> are its
  decimal numeral: not empty, made of the characters 0 to 9, without a leading zero
  except for the number 0 itself, and of value \<open>n\<close>.
\<close>

theorem sign_signs_prefixed_digest:
  "CustomTronHDWallet_sign P w (Text s) =
     Inr (CustomTronSigningKey_sign P (wallet_signingKey w)
            (keccak256 P
               ([0x19, 0x54, 0x52, 0x4F, 0x4E, 0x20, 0x53, 0x69, 0x67, 0x6E, 0x65, 0x64, 0x20,
                 0x4D, 0x65, 0x73, 0x73, 0x61, 0x67, 0x65, 0x3A, 0x0A]
                @ map (\<lambda>c. of_nat (of_char c)) (toString10 (length s))
                @ map (\<lambda>c. of_nat (of_char c)) s))) \<and>
   CustomTronHDWallet_sign P w (Bytes bs) =
     Inr (CustomTronSigningKey_sign P (wallet_signingKey w)
            (keccak256 P
               ([0x19, 0x54, 0x52, 0x4F, 0x4E, 0x20, 0x53, 0x69, 0x67, 0x6E, 0x65, 0x64, 0x20,
                 0x4D, 0x65, 0x73, 0x73, 0x61, 0x67, 0x65, 0x3A, 0x0A]
                @ map (\<lambda>c. of_nat (of_char c)) (toString10 (length bs))
                @ bs))) \<and>
   WalletAccountTron_sign P signingKey_sign h a (Text s) =
     (case acc_signingKey a of
        None \<Rightarrow> Inl TypeError
      | Some r \<Rightarrow>
          (case h r of
             None \<Rightarrow> Inl TypeError
           | Some key \<Rightarrow>
               Inr (signingKey_sign key
                 (keccak256 P
                    ([0x19, 0x54, 0x52, 0x4F, 0x4E, 0x20, 0x53, 0x69, 0x67, 0x6E, 0x65, 0x64,
                      0x20, 0x4D, 0x65, 0x73, 0x73, 0x61, 0x67, 0x65, 0x3A, 0x0A]
                     @ map (\<lambda>c. of_nat (of_char c)) (toString10 (length s))
                     @ map (\<lambda>c. of_nat (of_char c)) s))))) \<and>
   WalletAccountTron_sign P signingKey_sign h a (Bytes bs) =
     (case acc_signingKey a of
        None \<Rightarrow> Inl TypeError
      | Some r \<Rightarrow>
          (case h r of
             None \<Rightarrow> Inl TypeError
           | Some key \<Rightarrow>
               Inr (signingKey_sign key
                 (keccak256 P
                    ([0x19, 0x54, 0x52, 0x4F, 0x4E, 0x20, 0x53, 0x69, 0x67, 0x6E, 0x65, 0x64,
                      0x20, 0x4D, 0x65, 0x73, 0x73, 0x61, 0x67, 0x65, 0x3A, 0x0A]
                     @ map (\<lambda>c. of_nat (of_char c)) (toString10 (length bs))
                     @ bs))))) \<and>
   toString10 n \<noteq> [] \<and>
   set (toString10 n) \<subseteq> set ''0123456789'' \<and>
   (n = 0 \<or> hd (toString10 n) \<noteq> CHR ''0'') \<and>
   toString10 0 = ''0'' \<and>
   foldl (\<lambda>acc c. 10 * acc + (of_char c - 48)) 0 (toString10 n) = n"
proof -
  have wallet_sign: "CustomTronHDWallet_sign P w m =
     Inr (CustomTronSigningKey_sign P (wallet_signingKey w)
            (keccak256 P (sign_prefix m @ messageBytes m)))" for m
    by (simp add: CustomTronHDWallet_sign_def prefixedMessage_eq)
  have account_sign: "WalletAccountTron_sign P signingKey_sign h a m =
     (case acc_signingKey a of
        None \<Rightarrow> Inl TypeError
      | Some r \<Rightarrow>
          (case h r of
             None \<Rightarrow> Inl TypeError
           | Some key \<Rightarrow>
               Inr (signingKey_sign key (keccak256 P (sign_prefix m @ messageBytes m)))))" for m
    by (simp add: WalletAccountTron_sign_def prefixedMessage_eq)
  show ?thesis
    unfolding wallet_sign account_sign sign_prefix_bytes messageBytes.simps
      TextEncoder_encode_def length_map append_assoc
    using toString10_not_empty [of n] toString10_decimal [of n] toString10_leading [of n]
      toString10_zero toString10_value [of n]
    by simp
qed

text \<open>
  The theorem at work: the text \<^verbatim>\<open>hi\<close> and the bytes 1, 2, 3 signed with primitives whose
  hash hands back its input, so that the digest shown is the message that was hashed; and
  the digits of 12.
\<close>

theorem sign_signs_prefixed_digest_witness:
  "CustomTronHDWallet_sign echo_primitives test_wallet (Text ''hi'') =
     Inr (CustomTronSigningKey_sign echo_primitives (be_bytes 5)
            [0x19, 0x54, 0x52, 0x4F, 0x4E, 0x20, 0x53, 0x69, 0x67, 0x6E, 0x65, 0x64, 0x20,
             0x4D, 0x65, 0x73, 0x73, 0x61, 0x67, 0x65, 0x3A, 0x0A, 0x32, 0x68, 0x69]) \<and>
   CustomTronHDWallet_sign echo_primitives test_wallet (Bytes [1, 2, 3]) =
     Inr (CustomTronSigningKey_sign echo_primitives (be_bytes 5)
            [0x19, 0x54, 0x52, 0x4F, 0x4E, 0x20, 0x53, 0x69, 0x67, 0x6E, 0x65, 0x64, 0x20,
             0x4D, 0x65, 0x73, 0x73, 0x61, 0x67, 0x65, 0x3A, 0x0A, 0x33, 1, 2, 3]) \<and>
   WalletAccountTron_sign echo_primitives test_signingKey_sign test_store test_account
       (Text ''hi'') =
     Inr (test_signingKey_sign (be_bytes 5)
            [0x19, 0x54, 0x52, 0x4F, 0x4E, 0x20, 0x53, 0x69, 0x67, 0x6E, 0x65, 0x64, 0x20,
             0x4D, 0x65, 0x73, 0x73, 0x61, 0x67, 0x65, 0x3A, 0x0A, 0x32, 0x68, 0x69]) \<and>
   WalletAccountTron_sign echo_primitives test_signingKey_sign test_store test_account
       (Bytes [1, 2, 3]) =
     Inr (test_signingKey_sign (be_bytes 5)
            [0x19, 0x54, 0x52, 0x4F, 0x4E, 0x20, 0x53, 0x69, 0x67, 0x6E, 0x65, 0x64, 0x20,
             0x4D, 0x65, 0x73, 0x73, 0x61, 0x67, 0x65, 0x3A, 0x0A, 0x33, 1, 2, 3]) \<and>
   toString10 12 \<noteq> [] \<and>
   set (toString10 12) \<subseteq> set ''0123456789'' \<and>
   hd (toString10 12) \<noteq> CHR ''0'' \<and>
   foldl (\<lambda>acc c. 10 * acc + (of_char c - 48)) 0 (toString10 12) = (12::nat)"
proof -
  have digits: "toString10 (length ''hi'') = ''2''" "toString10 (length [1, 2, 3::byte]) = ''3''"
    by code_simp+
  have hash: "keccak256 echo_primitives = (\<lambda>m. m)"
    by (simp add: echo_primitives_def)
  have key: "wallet_signingKey test_wallet = be_bytes 5"
    "acc_signingKey test_account = Some 0" "test_store 0 = Some (be_bytes 5)"
    by (simp_all add: test_wallet_def test_account_def test_store_def)
  note t = sign_signs_prefixed_digest [where P = echo_primitives and w = test_wallet
      and s = "''hi''" and bs = "[1, 2, 3]" and signingKey_sign = test_signingKey_sign
      and h = test_store and a = test_account and n = 12, unfolded digits hash key]
  from t show ?thesis
    by (simp add: key)
qed

end
